theory Spec2Isabelle
  imports Main "HOL-Library.Sublist"
begin

section \<open>Python values used by the script\<close>

text \<open>
  A Python \<open>str\<close> is a sequence of code points. It is modelled as a \<open>string\<close>, each
  \<open>char\<close> standing for one code point in the range 0..255. Python integers are
  unbounded and are modelled as \<open>int\<close>.
\<close>

definition isdigit :: "char \<Rightarrow> bool" where
  \<comment> \<open>what \<open>\d\<close> matches: the decimal digits; below 256 these are \<open>0\<close>..\<open>9\<close>\<close>
  "isdigit c \<longleftrightarrow> 48 \<le> (of_char c :: nat) \<and> (of_char c :: nat) \<le> 57"

definition isspace :: "char \<Rightarrow> bool" where
  \<comment> \<open>what \<open>\s\<close> matches in a \<open>str\<close> pattern: below 256 these are TAB, LF, VT, FF, CR,
      FS, GS, RS, US, SPACE, NEL and NBSP\<close>
  "isspace c \<longleftrightarrow> (of_char c :: nat) \<in> {9, 10, 11, 12, 13, 28, 29, 30, 31, 32, 133, 160}"

definition digit_value :: "char \<Rightarrow> nat" where
  "digit_value c = of_char c - 48"

definition py_int :: "string \<Rightarrow> int" where
  \<comment> \<open>\<open>int(s)\<close> for a string of decimal digits, which is all the script passes to it\<close>
  "py_int s = int (foldl (\<lambda>acc c. 10 * acc + digit_value c) 0 s)"

definition digit_char :: "nat \<Rightarrow> char" where
  "digit_char d = char_of (48 + d)"

fun str_nat :: "nat \<Rightarrow> string" where
  "str_nat n = (if n < 10 then [digit_char n] else str_nat (n div 10) @ [digit_char (n mod 10)])"

declare str_nat.simps [simp del]

definition str_int :: "int \<Rightarrow> string" where
  \<comment> \<open>\<open>str(i)\<close>, also what \<open>f"{i}"\<close> renders\<close>
  "str_int i = (if i < 0 then CHR ''-'' # str_nat (nat (- i)) else str_nat (nat i))"

definition format_0wd :: "nat \<Rightarrow> int \<Rightarrow> string" where
  \<comment> \<open>\<open>f"{i:0wd}"\<close>: the sign, then zeros up to a total width of \<open>w\<close>, then the digits;
      a number that needs more than \<open>w\<close> characters is not truncated\<close>
  "format_0wd w i =
     (let sgn = (if i < 0 then ''-'' else '''');
          ds = str_nat (nat \<bar>i\<bar>)
      in sgn @ replicate (w - length sgn - length ds) CHR ''0'' @ ds)"

section \<open>Formatting the date\<close>

definition format_date :: "int \<times> int \<times> int \<Rightarrow> string" where
  "format_date date_tuple =
     (case date_tuple of (month, day, year) \<Rightarrow>
        format_0wd 2 month @ ''-'' @ format_0wd 2 day @ ''-'' @ str_int year)"

section \<open>Exceptions\<close>

text \<open>
  The script raises nothing itself; every exception comes out of a library call. An
  exception is a value: its class and the message that \<open>str(e)\<close> returns. A call that
  may raise returns \<open>exn + 'a\<close>, with \<open>Inl\<close> for the exception.
\<close>

datatype exn_class =
    OverflowError | ValueError | KeyError | IndexError | FileNotFoundError | FileExistsError
  | IsADirectoryError | NotADirectoryError | InvalidFileException | BadZipFile | ShutilError
  | SameFileError

datatype exn = Exn exn_class string

fun str_exn :: "exn \<Rightarrow> string" where
  "str_exn (Exn cls msg) = msg"

fun class_of :: "exn \<Rightarrow> exn_class" where
  "class_of (Exn cls msg) = cls"

definition is_OSError :: "exn \<Rightarrow> bool" where
  \<comment> \<open>the classes an \<open>except OSError\<close> takes\<close>
  "is_OSError e \<longleftrightarrow>
     class_of e \<in> {FileNotFoundError, FileExistsError, IsADirectoryError, NotADirectoryError,
                  ShutilError, SameFileError}"

definition quoted :: "string \<Rightarrow> string" where
  \<comment> \<open>\<open>repr(p)\<close> of a path that needs no escapes\<close>
  "quoted p = [CHR 0x27] @ p @ [CHR 0x27]"

section \<open>The calendar of \<open>datetime\<close>\<close>

text \<open>
  \<open>datetime.now()\<close> is an input of the model: the value the clock returns. Only its
  date part is read. The ordinal arithmetic is the one of the \<open>datetime\<close> module;
  \<open>//\<close> and \<open>%\<close> with a positive divisor are \<open>div\<close> and \<open>mod\<close> on \<open>int\<close>.
\<close>

record datetime =
  dt_year :: int
  dt_month :: int
  dt_day :: int

definition is_leap :: "int \<Rightarrow> bool" where
  "is_leap y \<longleftrightarrow> y mod 4 = 0 \<and> (y mod 100 \<noteq> 0 \<or> y mod 400 = 0)"

definition days_before_year :: "int \<Rightarrow> int" where
  "days_before_year yr = (let y = yr - 1 in y * 365 + y div 4 - y div 100 + y div 400)"

definition DAYS_IN_MONTH :: "int list" where
  "DAYS_IN_MONTH = [-1, 31, 28, 31, 30, 31, 30, 31, 31, 30, 31, 30, 31]"

definition DAYS_BEFORE_MONTH :: "int list" where
  "DAYS_BEFORE_MONTH = [-1, 0, 31, 59, 90, 120, 151, 181, 212, 243, 273, 304, 334]"

definition days_in_month :: "int \<Rightarrow> int \<Rightarrow> int" where
  "days_in_month y m = (if m = 2 \<and> is_leap y then 29 else DAYS_IN_MONTH ! nat m)"

definition days_before_month :: "int \<Rightarrow> int \<Rightarrow> int" where
  "days_before_month y m = DAYS_BEFORE_MONTH ! nat m + (if m > 2 \<and> is_leap y then 1 else 0)"

definition ymd2ord :: "int \<Rightarrow> int \<Rightarrow> int \<Rightarrow> int" where
  "ymd2ord y m d = days_before_year y + days_before_month y m + d"

definition DI400Y :: int where "DI400Y = days_before_year 401"
definition DI100Y :: int where "DI100Y = days_before_year 101"
definition DI4Y :: int where "DI4Y = days_before_year 5"

definition MAXORDINAL :: int where "MAXORDINAL = 3652059"

definition ord2ymd :: "int \<Rightarrow> int \<times> int \<times> int" where
  "ord2ymd ordinal =
     (let n = ordinal - 1;
          n400 = n div DI400Y; n = n mod DI400Y;
          year = n400 * 400 + 1;
          n100 = n div DI100Y; n = n mod DI100Y;
          n4 = n div DI4Y; n = n mod DI4Y;
          n1 = n div 365; n = n mod 365;
          year = year + (n100 * 100 + n4 * 4 + n1)
      in if n1 = 4 \<or> n100 = 4 then (year - 1, 12, 31)
         else
           let leapyear = (n1 = 3 \<and> (n4 \<noteq> 24 \<or> n100 = 3));
               month = (n + 50) div 32;
               preceding = DAYS_BEFORE_MONTH ! nat month + (if month > 2 \<and> leapyear then 1 else 0)
           in if preceding > n
              then (let month = month - 1;
                        preceding = preceding
                          - (DAYS_IN_MONTH ! nat month + (if month = 2 \<and> leapyear then 1 else 0))
                    in (year, month, n - preceding + 1))
              else (year, month, n - preceding + 1))"

definition valid_datetime :: "datetime \<Rightarrow> bool" where
  \<comment> \<open>the dates a \<open>datetime\<close> object can hold\<close>
  "valid_datetime d \<longleftrightarrow>
     1 \<le> dt_year d \<and> dt_year d \<le> 9999 \<and> 1 \<le> dt_month d \<and> dt_month d \<le> 12 \<and>
     1 \<le> dt_day d \<and> dt_day d \<le> days_in_month (dt_year d) (dt_month d)"

definition toordinal :: "datetime \<Rightarrow> int" where
  "toordinal d = ymd2ord (dt_year d) (dt_month d) (dt_day d)"

definition fromordinal :: "int \<Rightarrow> datetime" where
  "fromordinal n =
     (case ord2ymd n of (y, m, d) \<Rightarrow> \<lparr>dt_year = y, dt_month = m, dt_day = d\<rparr>)"

definition weekday :: "datetime \<Rightarrow> int" where
  \<comment> \<open>Monday is 0, Sunday is 6\<close>
  "weekday d = (toordinal d + 6) mod 7"

definition datetime_sub_days :: "datetime \<Rightarrow> int \<Rightarrow> exn + datetime" where
  \<comment> \<open>\<open>d - timedelta(days=k)\<close>\<close>
  "datetime_sub_days d k =
     (let ordinal = toordinal d - k
      in if 0 < ordinal \<and> ordinal \<le> MAXORDINAL then Inr (fromordinal ordinal)
         else Inl (Exn OverflowError ''date value out of range''))"

section \<open>Extracting the date from a file name\<close>

text \<open>
  \<open>re.search\<close> tries the pattern at every offset from the left and returns the first
  match. Both patterns are matched by hand. In \<open>WE\s+(\d{2})(\d{2})(\d{2})\<close> the greedy
  \<open>\s+\<close> takes the whole run of whitespace; giving characters back cannot help, since
  the next character would then be whitespace and not a digit.
\<close>

fun re_search :: "(string \<Rightarrow> 'a option) \<Rightarrow> string \<Rightarrow> 'a option" where
  "re_search m [] = m []"
| "re_search m (c # cs) = (case m (c # cs) of Some g \<Rightarrow> Some g | None \<Rightarrow> re_search m cs)"

fun dot_pattern :: "string \<Rightarrow> (string \<times> string \<times> string) option" where
  "dot_pattern (a # b # p # c # d # q # e # f # rest) =
     (if isdigit a \<and> isdigit b \<and> p = CHR ''.'' \<and> isdigit c \<and> isdigit d \<and> q = CHR ''.''
         \<and> isdigit e \<and> isdigit f
      then Some ([a, b], [c, d], [e, f]) else None)"
| "dot_pattern _ = None"

fun six_digits :: "string \<Rightarrow> (string \<times> string \<times> string) option" where
  "six_digits (a # b # c # d # e # f # rest) =
     (if isdigit a \<and> isdigit b \<and> isdigit c \<and> isdigit d \<and> isdigit e \<and> isdigit f
      then Some ([a, b], [c, d], [e, f]) else None)"
| "six_digits _ = None"

fun no_dot_pattern :: "string \<Rightarrow> (string \<times> string \<times> string) option" where
  "no_dot_pattern (w # e # s # rest) =
     (if w = CHR ''W'' \<and> e = CHR ''E'' \<and> isspace s
      then six_digits (dropWhile isspace rest) else None)"
| "no_dot_pattern _ = None"

definition extract_date_from_filename :: "datetime \<Rightarrow> string \<Rightarrow> exn + (int \<times> int \<times> int)" where
  "extract_date_from_filename now filename =
     (case re_search dot_pattern filename of
        Some (month, day, year) \<Rightarrow> Inr (py_int month, py_int day, 2000 + py_int year)
      | None \<Rightarrow>
         (case re_search no_dot_pattern filename of
            Some (month, day, year) \<Rightarrow> Inr (py_int month, py_int day, 2000 + py_int year)
          | None \<Rightarrow>
             (let today = now;
                  days_since_sunday = weekday today + 1
              in case datetime_sub_days today days_since_sunday of
                   Inl e \<Rightarrow> Inl e
                 | Inr previous_sunday \<Rightarrow>
                     Inr (dt_month previous_sunday, dt_day previous_sunday,
                          dt_year previous_sunday))))"

definition create_new_filename :: "datetime \<Rightarrow> string \<Rightarrow> exn + string" where
  "create_new_filename now original_filename =
     (case extract_date_from_filename now original_filename of
        Inl e \<Rightarrow> Inl e
      | Inr date_tuple \<Rightarrow> Inr (format_date date_tuple @ ''_'' @ original_filename))"

subsection \<open>Where a pattern matches, said without the matcher\<close>

definition pair_value :: "string \<Rightarrow> nat \<Rightarrow> int" where
  \<comment> \<open>the number written by the two digits at offsets \<open>i\<close> and \<open>i + 1\<close>\<close>
  "pair_value s i = int (10 * digit_value (s ! i) + digit_value (s ! (i + 1)))"

definition dotted_at :: "string \<Rightarrow> nat \<Rightarrow> bool" where
  \<comment> \<open>two digits, a dot, two digits, a dot, two digits, starting at offset \<open>i\<close>\<close>
  "dotted_at s i \<longleftrightarrow>
     i + 8 \<le> length s \<and> isdigit (s ! i) \<and> isdigit (s ! (i + 1)) \<and> s ! (i + 2) = CHR ''.'' \<and>
     isdigit (s ! (i + 3)) \<and> isdigit (s ! (i + 4)) \<and> s ! (i + 5) = CHR ''.'' \<and>
     isdigit (s ! (i + 6)) \<and> isdigit (s ! (i + 7))"

definition we_at :: "string \<Rightarrow> nat \<Rightarrow> nat \<Rightarrow> bool" where
  \<comment> \<open>\<open>WE\<close> at offset \<open>i\<close>, then \<open>k \<ge> 1\<close> whitespace characters, then six digits\<close>
  "we_at s i k \<longleftrightarrow>
     1 \<le> k \<and> i + 2 + k + 6 \<le> length s \<and> s ! i = CHR ''W'' \<and> s ! (i + 1) = CHR ''E'' \<and>
     (\<forall>j < k. isspace (s ! (i + 2 + j))) \<and> (\<forall>j < 6. isdigit (s ! (i + 2 + k + j)))"

definition spec_days_since_sunday :: "datetime \<Rightarrow> int" where
  \<comment> \<open>the offset as the specification words it: 0 on a Sunday, 1 on a Monday, up to 6
      on a Saturday\<close>
  "spec_days_since_sunday today = (weekday today + 1) mod 7"

section \<open>Paths\<close>

text \<open>The functions of \<open>os.path\<close> on a POSIX system, where the separator is \<open>/\<close>.\<close>

definition os_path_basename :: "string \<Rightarrow> string" where
  \<comment> \<open>everything after the last \<open>/\<close>\<close>
  "os_path_basename p = rev (takeWhile (\<lambda>c. c \<noteq> CHR ''/'') (rev p))"

definition os_path_join :: "string \<Rightarrow> string \<Rightarrow> string" where
  "os_path_join a b =
     (if b \<noteq> [] \<and> hd b = CHR ''/'' then b
      else if a = [] \<or> last a = CHR ''/'' then a @ b
      else a @ ''/'' @ b)"

definition rstrip_sep :: "string \<Rightarrow> string" where
  "rstrip_sep p = rev (dropWhile (\<lambda>c. c = CHR ''/'') (rev p))"

definition os_path_split :: "string \<Rightarrow> string \<times> string" where
  "os_path_split p =
     (let tail = os_path_basename p;
          head = take (length p - length tail) p
      in (if head \<noteq> [] \<and> head \<noteq> replicate (length head) CHR ''/'' then rstrip_sep head else head,
          tail))"

definition shutil_basename :: "string \<Rightarrow> string" where
  \<comment> \<open>\<open>shutil._basename\<close>: the last component, trailing separators ignored\<close>
  "shutil_basename p = os_path_basename (rstrip_sep p)"

definition splitext_ext :: "string \<Rightarrow> string" where
  \<comment> \<open>\<open>os.path.splitext(p)[1]\<close>: from the last dot of the last component on, unless only
      dots come before it there\<close>
  "splitext_ext p =
     (let b = os_path_basename p;
          e = rev (takeWhile (\<lambda>c. c \<noteq> CHR ''.'') (rev b));
          stem = take (length b - length e - 1) b
      in if CHR ''.'' \<in> set b \<and> (\<exists>c \<in> set stem. c \<noteq> CHR ''.'') then CHR ''.'' # e else [])"

definition lower_char :: "char \<Rightarrow> char" where
  \<comment> \<open>\<open>str.lower\<close> on one code point below 256\<close>
  "lower_char c =
     (let n = (of_char c :: nat)
      in if (65 \<le> n \<and> n \<le> 90) \<or> (192 \<le> n \<and> n \<le> 222 \<and> n \<noteq> 215) then char_of (n + 32) else c)"

fun components :: "string \<Rightarrow> string list" where
  \<comment> \<open>\<open>p.split('/')\<close>\<close>
  "components [] = [[]]"
| "components (c # cs) =
     (if c = CHR ''/'' then [] # components cs
      else (case components cs of [] \<Rightarrow> [[c]] | x # xs \<Rightarrow> (c # x) # xs))"

section \<open>The file system\<close>

text \<open>
  The file system is a tree without links. An entry is named by its key, the list of
  names from the root down to it; the root, with the empty key, is a directory. A path
  string is resolved to a key the way the system does it: from the root or from the
  current directory, component by component, each component taken in a directory that
  must exist; an empty component and \<open>.\<close> stay in the directory, \<open>..\<close> goes to its
  parent. So two spellings of a path name the same entry when they resolve to the same
  key. A path with a NUL character in it is refused with \<open>ValueError\<close> by every call
  that hands it to the system. Permissions, devices and full disks are left out: a call
  fails only for the shape of the tree.

  A regular file holds a workbook that \<open>openpyxl\<close> can load, or a zip archive that is
  no workbook, or something else. A workbook is given by its worksheets, in order;
  workbooks with chart sheets are left out.
\<close>

datatype sheet_state = visible | hidden | veryHidden

record worksheet =
  title :: string
  sheet_state :: sheet_state

type_synonym workbook = "worksheet list"

datatype content = Workbook workbook | OtherZip | Other

datatype node = Dir | File content

record filesystem =
  cwd :: "string list"
  nodes :: "string list \<Rightarrow> node option"

definition node_at :: "filesystem \<Rightarrow> string list \<Rightarrow> node option" where
  "node_at fs k = (if k = [] then Some Dir else nodes fs k)"

fun walk :: "filesystem \<Rightarrow> string list \<Rightarrow> string list \<Rightarrow> exn_class + string list" where
  "walk fs k [] = Inr k"
| "walk fs k (c # cs) =
     (case node_at fs k of
        None \<Rightarrow> Inl FileNotFoundError
      | Some (File x) \<Rightarrow> Inl NotADirectoryError
      | Some Dir \<Rightarrow>
          if c = [] \<or> c = ''.'' then walk fs k cs
          else if c = ''..''
          then (if node_at fs (butlast k) = Some Dir then walk fs (butlast k) cs
                else Inl FileNotFoundError)
          else walk fs (k @ [c]) cs)"

definition resolve :: "filesystem \<Rightarrow> string \<Rightarrow> exn_class + string list" where
  \<comment> \<open>the key a path names; the entry itself need not exist\<close>
  "resolve fs p =
     (if CHR 0x00 \<in> set p then Inl ValueError
      else if p = [] then Inl FileNotFoundError
      else if hd p = CHR ''/'' then walk fs [] (components (tl p))
      else walk fs (cwd fs) (components p))"

definition lookup :: "filesystem \<Rightarrow> string \<Rightarrow> exn_class + node" where
  \<comment> \<open>the entry a path names\<close>
  "lookup fs p =
     (case resolve fs p of
        Inl e \<Rightarrow> Inl e
      | Inr k \<Rightarrow> (case node_at fs k of None \<Rightarrow> Inl FileNotFoundError | Some n \<Rightarrow> Inr n))"

fun os_error :: "exn_class \<Rightarrow> string \<Rightarrow> exn" where
  \<comment> \<open>the exception of a failed system call on a path\<close>
  "os_error ValueError p = Exn ValueError ''embedded null byte''"
| "os_error FileNotFoundError p = Exn FileNotFoundError (''[Errno 2] No such file or directory: '' @ quoted p)"
| "os_error FileExistsError p = Exn FileExistsError (''[Errno 17] File exists: '' @ quoted p)"
| "os_error NotADirectoryError p = Exn NotADirectoryError (''[Errno 20] Not a directory: '' @ quoted p)"
| "os_error IsADirectoryError p = Exn IsADirectoryError (''[Errno 21] Is a directory: '' @ quoted p)"
| "os_error cls p = Exn cls (quoted p)"

definition os_path_exists :: "filesystem \<Rightarrow> string \<Rightarrow> bool" where
  \<comment> \<open>false also when the path cannot be resolved\<close>
  "os_path_exists fs p \<longleftrightarrow> (case lookup fs p of Inl e \<Rightarrow> False | Inr n \<Rightarrow> True)"

definition os_path_isdir :: "filesystem \<Rightarrow> string \<Rightarrow> bool" where
  "os_path_isdir fs p \<longleftrightarrow> lookup fs p = Inr Dir"

definition os_path_samefile :: "filesystem \<Rightarrow> string \<Rightarrow> string \<Rightarrow> bool" where
  \<comment> \<open>\<open>shutil._samefile\<close>: both paths name the same existing entry\<close>
  "os_path_samefile fs a b \<longleftrightarrow>
     os_path_exists fs a \<and> os_path_exists fs b \<and> resolve fs a = resolve fs b"

definition strip_trailing :: "string \<Rightarrow> string" where
  \<comment> \<open>a path without its trailing separators, the root kept\<close>
  "strip_trailing p = (if rstrip_sep p = [] then p else rstrip_sep p)"

definition open_read :: "filesystem \<Rightarrow> string \<Rightarrow> exn + string list \<times> content" where
  \<comment> \<open>\<open>open(path, 'rb')\<close>: the key of the file and what it holds\<close>
  "open_read fs path =
     (case resolve fs path of
        Inl e \<Rightarrow> Inl (os_error e path)
      | Inr k \<Rightarrow>
          (case node_at fs k of
             None \<Rightarrow> Inl (os_error FileNotFoundError path)
           | Some Dir \<Rightarrow> Inl (os_error IsADirectoryError path)
           | Some (File c) \<Rightarrow> Inr (k, c)))"

definition open_write :: "filesystem \<Rightarrow> string \<Rightarrow> exn_class + string list" where
  \<comment> \<open>\<open>open(path, 'wb')\<close>: the key of the file that is created or emptied; a path with
      a trailing separator is a directory's\<close>
  "open_write fs path =
     (if path \<noteq> [] \<and> last path = CHR ''/''
      then (case resolve fs (strip_trailing path) of
              Inl e \<Rightarrow> Inl e
            | Inr k \<Rightarrow> Inl IsADirectoryError)
      else (case resolve fs path of
              Inl e \<Rightarrow> Inl e
            | Inr k \<Rightarrow> (case node_at fs k of Some Dir \<Rightarrow> Inl IsADirectoryError | _ \<Rightarrow> Inr k)))"

definition os_mkdir :: "filesystem \<Rightarrow> string \<Rightarrow> exn + filesystem" where
  \<comment> \<open>\<open>os.mkdir(path)\<close>: one directory is made, in a directory that exists\<close>
  "os_mkdir fs path =
     (case resolve fs (strip_trailing path) of
        Inl e \<Rightarrow> Inl (os_error e path)
      | Inr k \<Rightarrow>
          (case node_at fs k of
             Some n \<Rightarrow> Inl (os_error FileExistsError path)
           | None \<Rightarrow> Inr (fs\<lparr>nodes := (nodes fs)(k \<mapsto> Dir)\<rparr>)))"

text \<open>
  A call that changes the file system in several steps returns its result or its
  exception together with the file system as it has left it: the steps done before a
  raise are not undone.
\<close>

definition mkdir_exist_ok :: "filesystem \<Rightarrow> string \<Rightarrow> (exn + unit) \<times> filesystem" where
  \<comment> \<open>the last step of \<open>os.makedirs(name, exist_ok=True)\<close>: \<open>mkdir(name)\<close>, where an
      \<open>OSError\<close> is passed over when \<open>name\<close> is a directory\<close>
  "mkdir_exist_ok fs name =
     (case os_mkdir fs name of
        Inr fs' \<Rightarrow> (Inr (), fs')
      | Inl e \<Rightarrow> if is_OSError e \<and> os_path_isdir fs name then (Inr (), fs) else (Inl e, fs))"

definition makedirs_head_tail :: "string \<Rightarrow> string \<times> string" where
  "makedirs_head_tail name =
     (case os_path_split name of
        (head, tail) \<Rightarrow> if tail = [] then os_path_split head else (head, tail))"

function os_makedirs :: "filesystem \<Rightarrow> string \<Rightarrow> (exn + unit) \<times> filesystem" where
  "os_makedirs fs name =
     (if fst (makedirs_head_tail name) \<noteq> [] \<and> snd (makedirs_head_tail name) \<noteq> []
         \<and> \<not> os_path_exists fs (fst (makedirs_head_tail name))
      then (case os_makedirs fs (fst (makedirs_head_tail name)) of
              (Inl e, fs') \<Rightarrow>
                if class_of e = FileExistsError
                then (if snd (makedirs_head_tail name) = ''.'' then (Inr (), fs')
                      else mkdir_exist_ok fs' name)
                else (Inl e, fs')
            | (Inr u, fs') \<Rightarrow>
                if snd (makedirs_head_tail name) = ''.'' then (Inr (), fs')
                else mkdir_exist_ok fs' name)
      else mkdir_exist_ok fs name)"
  by pat_completeness auto
termination
proof (relation "measure (\<lambda>(fs, name). length name)")
  show "wf (measure (\<lambda>(fs, name). length name))" by simp
next
  fix fs :: filesystem and name :: string
  assume a: "fst (makedirs_head_tail name) \<noteq> [] \<and> snd (makedirs_head_tail name) \<noteq> []
             \<and> \<not> os_path_exists fs (fst (makedirs_head_tail name))"
  have split_len: "length (fst (os_path_split p)) + length (snd (os_path_split p)) \<le> length p" for p
  proof -
    have b: "length (os_path_basename p) \<le> length p"
      by (simp add: os_path_basename_def) (metis length_rev length_takeWhile_le)
    have r: "length (rstrip_sep h) \<le> length h" for h
      by (simp add: rstrip_sep_def) (metis length_rev length_dropWhile_le)
    have "length (fst (os_path_split p)) \<le> length p - length (os_path_basename p)"
      using r [of "take (length p - length (os_path_basename p)) p"]
      by (simp add: os_path_split_def Let_def)
    then show ?thesis using b by (simp add: os_path_split_def Let_def)
  qed
  have "length (fst (makedirs_head_tail name)) + length (snd (makedirs_head_tail name)) \<le> length name"
  proof (cases "snd (os_path_split name) = []")
    case True
    then have "makedirs_head_tail name = os_path_split (fst (os_path_split name))"
      by (simp add: makedirs_head_tail_def case_prod_unfold)
    then show ?thesis
      using split_len [of "fst (os_path_split name)"] split_len [of name] by simp
  next
    case False
    then have "makedirs_head_tail name = os_path_split name"
      by (simp add: makedirs_head_tail_def case_prod_unfold)
    then show ?thesis using split_len [of name] by simp
  qed
  moreover have "0 < length (snd (makedirs_head_tail name))" using a by simp
  ultimately have "length (fst (makedirs_head_tail name)) < length name" by linarith
  then show "((fs, fst (makedirs_head_tail name)), (fs, name)) \<in> measure (\<lambda>(fs, name). length name)"
    by simp
qed

declare os_makedirs.simps [simp del]

definition adds_dirs :: "filesystem \<Rightarrow> filesystem \<Rightarrow> bool" where
  \<comment> \<open>the second file system is the first with directories added where nothing was\<close>
  "adds_dirs fs fs' \<longleftrightarrow>
     cwd fs' = cwd fs
     \<and> (\<forall>k. nodes fs' k = nodes fs k \<or> (nodes fs k = None \<and> nodes fs' k = Some Dir))"

definition SUPPORTED_FORMATS :: "string list" where
  "SUPPORTED_FORMATS = [''.xlsx'', ''.xlsm'', ''.xltx'', ''.xltm'']"

definition invalid_file_message :: "string \<Rightarrow> string" where
  "invalid_file_message file_format =
     (if file_format = ''.xls''
      then ''openpyxl does not support the old .xls file format, please use xlrd to read this file, or convert it to the more recent .xlsx file format.''
      else if file_format = ''.xlsb''
      then ''openpyxl does not support binary format .xlsb, please convert this file to .xlsx format if you want to open it with openpyxl''
      else ''openpyxl does not support '' @ file_format
           @ '' file format, please check you can open it with Excel first. Supported formats are: .xlsx,.xlsm,.xltx,.xltm'')"

definition load_workbook :: "filesystem \<Rightarrow> string \<Rightarrow> exn + workbook" where
  \<comment> \<open>\<open>openpyxl.load_workbook(filename)\<close>: the extension is checked, then the file is
      opened as a zip archive, then the parts of the workbook are read from it\<close>
  "load_workbook fs filename =
     (let file_format = map lower_char (splitext_ext filename)
      in if file_format \<notin> set SUPPORTED_FORMATS
         then Inl (Exn InvalidFileException (invalid_file_message file_format))
         else (case open_read fs filename of
                 Inl e \<Rightarrow> Inl e
               | Inr (k, Other) \<Rightarrow> Inl (Exn BadZipFile ''File is not a zip file'')
               | Inr (k, OtherZip) \<Rightarrow>
                   Inl (Exn KeyError
                         ([CHR 0x22] @ ''There is no item named '' @ quoted ''[Content_Types].xml''
                          @ '' in the archive'' @ [CHR 0x22]))
               | Inr (k, Workbook wb) \<Rightarrow> Inr wb))"

definition workbook_save :: "filesystem \<Rightarrow> workbook \<Rightarrow> string \<Rightarrow> (exn + unit) \<times> filesystem" where
  \<comment> \<open>\<open>wb.save(filename)\<close>: the file is opened for writing, then the workbook is written
      to it. The writer refuses a workbook without a visible sheet; the file has been
      opened by then and is left as an archive that is no workbook\<close>
  "workbook_save fs wb filename =
     (case open_write fs filename of
        Inl e \<Rightarrow> (Inl (os_error e filename), fs)
      | Inr k \<Rightarrow>
          if list_ex (\<lambda>sheet. sheet_state sheet = visible) wb
          then (Inr (), fs\<lparr>nodes := (nodes fs)(k \<mapsto> File (Workbook wb))\<rparr>)
          else (Inl (Exn IndexError ''At least one sheet must be visible''),
                fs\<lparr>nodes := (nodes fs)(k \<mapsto> File OtherZip)\<rparr>))"

text \<open>
  The script moves the path it has loaded a workbook from, so the source of its move is
  a regular file. For such a source, and a destination that is not a directory,
  \<open>os.rename\<close> succeeds exactly when the source can be opened for reading and the
  destination for writing: then the entry is moved, or nothing is done when both paths
  name the same file. In every other case \<open>os.rename\<close> raises an \<open>OSError\<close>, and
  \<open>shutil.move\<close> falls back to \<open>copy2\<close> and \<open>os.unlink\<close>. \<open>copy2\<close> copies into a
  destination that is a directory, under the base name of the source, refuses to copy
  a file onto itself, and raises what \<open>open(src, 'rb')\<close> raises, or else what
  \<open>open(dst, 'wb')\<close> raises, where an \<open>IsADirectoryError\<close> for a destination that does
  not exist is turned into a \<open>FileNotFoundError\<close>. A NUL character makes \<open>os.rename\<close>
  raise \<open>ValueError\<close>, which is not an \<open>OSError\<close> and is passed on. Moving a
  directory with what is in it is not modelled: what the functions below give for a
  source that is a directory is not what \<open>shutil.move\<close> does there.
\<close>

definition rename_or_copy :: "filesystem \<Rightarrow> string \<Rightarrow> string \<Rightarrow> exn + filesystem" where
  \<comment> \<open>\<open>try: os.rename(src, dst)\<close>, \<open>except OSError:\<close> \<open>copy2(src, dst)\<close>, \<open>os.unlink(src)\<close>\<close>
  "rename_or_copy fs src dst =
     (if CHR 0x00 \<in> set src \<or> CHR 0x00 \<in> set dst then Inl (Exn ValueError ''embedded null byte'')
      else
        let target = (if os_path_isdir fs dst then os_path_join dst (os_path_basename src) else dst)
        in if os_path_isdir fs dst \<and> os_path_samefile fs src target
           then Inl (Exn SameFileError (quoted src @ '' and '' @ quoted target @ '' are the same file''))
           else
             (case open_read fs src of
                Inl e \<Rightarrow> Inl e
              | Inr (ks, c) \<Rightarrow>
                 (case open_write fs target of
                    Inl e \<Rightarrow>
                      if e = IsADirectoryError \<and> \<not> os_path_exists fs target
                      then Inl (Exn FileNotFoundError (''Directory does not exist: '' @ target))
                      else Inl (os_error e target)
                  | Inr kd \<Rightarrow>
                      if ks = kd then Inr fs
                      else Inr (fs\<lparr>nodes := ((nodes fs)(ks := None))(kd \<mapsto> File c)\<rparr>))))"

definition shutil_move :: "filesystem \<Rightarrow> string \<Rightarrow> string \<Rightarrow> exn + filesystem" where
  \<comment> \<open>\<open>shutil.move(src, dst)\<close>: into \<open>dst\<close> when that is a directory, else onto it\<close>
  "shutil_move fs src dst =
     (if os_path_isdir fs dst then
        (if os_path_samefile fs src dst then Inr fs
         else let real_dst = os_path_join dst (shutil_basename src)
              in if os_path_exists fs real_dst
                 then Inl (Exn ShutilError (''Destination path '' @ quoted real_dst @ '' already exists''))
                 else rename_or_copy fs src real_dst)
      else rename_or_copy fs src dst)"

section \<open>Output and archive paths\<close>

definition get_output_path :: "filesystem \<Rightarrow> string \<Rightarrow> string \<Rightarrow> (exn + string) \<times> filesystem" where
  "get_output_path fs filename output_dir =
     (case os_makedirs fs output_dir of
        (Inl e, fs') \<Rightarrow> (Inl e, fs')
      | (Inr u, fs') \<Rightarrow> (Inr (os_path_join output_dir filename), fs'))"

definition get_archive_path :: "filesystem \<Rightarrow> string \<Rightarrow> string \<Rightarrow> (exn + string) \<times> filesystem" where
  "get_archive_path fs filename archive_dir =
     (case os_makedirs fs archive_dir of
        (Inl e, fs') \<Rightarrow> (Inl e, fs')
      | (Inr u, fs') \<Rightarrow> (Inr (os_path_join archive_dir filename), fs'))"

section \<open>Finding the workbooks\<close>

text \<open>
  \<open>glob.glob\<close> reads the file system through two functions of the environment:
  \<open>listdir\<close>, the names in a directory in the order the system lists them (nothing for
  a directory that cannot be read; the empty name is the current directory), and
  \<open>expand_dirs\<close>, the directories that a directory name with wildcards in it stands
  for, or the exception that their search raises. \<open>glob\<close> passes over every \<open>OSError\<close>
  of a listing, but not the \<open>ValueError\<close> that a directory name with a NUL character
  raises. (With code points below 256 every other name can be handed to the system.)
  The pattern of the script always ends in one of \<open>*.xlsx\<close> and \<open>*.xls\<close>; \<open>fnmatch\<close> is
  modelled for \<open>*\<close>, \<open>?\<close> and literal characters.
\<close>

record glob_env =
  listdir :: "string \<Rightarrow> string list"
  expand_dirs :: "string \<Rightarrow> exn + string list"

definition has_magic :: "string \<Rightarrow> bool" where
  "has_magic s \<longleftrightarrow> (\<exists>c \<in> set s. c = CHR ''*'' \<or> c = CHR ''?'' \<or> c = CHR ''['')"

definition ishidden :: "string \<Rightarrow> bool" where
  "ishidden name \<longleftrightarrow> name \<noteq> [] \<and> hd name = CHR ''.''"

fun fnmatch :: "string \<Rightarrow> string \<Rightarrow> bool" where
  "fnmatch [] [] = True"
| "fnmatch (c # cs) [] = False"
| "fnmatch [] (p # ps) = (p = CHR ''*'' \<and> fnmatch [] ps)"
| "fnmatch (c # cs) (p # ps) =
     (if p = CHR ''*'' then fnmatch (c # cs) ps \<or> fnmatch cs (p # ps)
      else (p = CHR ''?'' \<or> p = c) \<and> fnmatch cs ps)"

definition glob1 :: "glob_env \<Rightarrow> string \<Rightarrow> string \<Rightarrow> exn + string list" where
  "glob1 env dirname pattern =
     (if CHR 0x00 \<in> set dirname then Inl (Exn ValueError ''embedded null byte'')
      else
        let names = listdir env dirname;
            names = (if \<not> ishidden pattern then filter (\<lambda>x. \<not> ishidden x) names else names)
        in Inr (filter (\<lambda>name. fnmatch name pattern) names))"

fun glob_in_dirs :: "glob_env \<Rightarrow> string \<Rightarrow> string list \<Rightarrow> exn + string list" where
  "glob_in_dirs env basename [] = Inr []"
| "glob_in_dirs env basename (dirname # dirs) =
     (case glob1 env dirname basename of
        Inl e \<Rightarrow> Inl e
      | Inr names \<Rightarrow>
         (case glob_in_dirs env basename dirs of
            Inl e \<Rightarrow> Inl e
          | Inr paths \<Rightarrow> Inr (map (os_path_join dirname) names @ paths)))"

definition glob_glob :: "glob_env \<Rightarrow> string \<Rightarrow> exn + string list" where
  \<comment> \<open>\<open>glob.glob(pathname)\<close> for a pathname whose last component has a wildcard\<close>
  "glob_glob env pathname =
     (case os_path_split pathname of (dirname, basename) \<Rightarrow>
        if dirname = [] then glob1 env [] basename
        else
          (case (if dirname \<noteq> pathname \<and> has_magic dirname then expand_dirs env dirname
                 else Inr [dirname]) of
             Inl e \<Rightarrow> Inl e
           | Inr dirs \<Rightarrow> glob_in_dirs env basename dirs))"

fun glob_each :: "glob_env \<Rightarrow> string \<Rightarrow> string list \<Rightarrow> exn + string list" where
  \<comment> \<open>the first loop of \<open>find_excel_files\<close>\<close>
  "glob_each env directory [] = Inr []"
| "glob_each env directory (ext # exts) =
     (case glob_glob env (os_path_join directory ext) of
        Inl e \<Rightarrow> Inl e
      | Inr found \<Rightarrow>
         (case glob_each env directory exts of
            Inl e \<Rightarrow> Inl e
          | Inr others \<Rightarrow> Inr (found @ others)))"

definition find_excel_files :: "glob_env \<Rightarrow> string \<Rightarrow> exn + string list" where
  "find_excel_files env directory =
     (case glob_each env directory [''*.xlsx'', ''*.xls''] of
        Inl e \<Rightarrow> Inl e
      | Inr excel_files \<Rightarrow>
          Inr (filter (\<lambda>file_path. \<not> sublist ''modified_excel_workbooks'' file_path
                                  \<and> \<not> sublist ''archived_data'' file_path) excel_files))"


section \<open>Processing one workbook\<close>

definition truthy :: "string option \<Rightarrow> bool" where
  \<comment> \<open>\<open>if output_path:\<close> for an argument that is \<open>None\<close> or a string\<close>
  "truthy p \<longleftrightarrow> (case p of None \<Rightarrow> False | Some s \<Rightarrow> s \<noteq> [])"

definition unhide_all_sheets ::
  "filesystem \<Rightarrow> string \<Rightarrow> string option \<Rightarrow> (exn + unit) \<times> filesystem" where
  "unhide_all_sheets fs excel_path output_path =
     (case load_workbook fs excel_path of
        Inl e \<Rightarrow> (Inl e, fs)
      | Inr wb \<Rightarrow>
          let wb = map (\<lambda>sheet. sheet\<lparr>sheet_state := visible\<rparr>) wb
          in if truthy output_path then workbook_save fs wb (the output_path)
             else workbook_save fs wb excel_path)"

definition process_excel_file ::
  "datetime \<Rightarrow> filesystem \<Rightarrow> string \<Rightarrow> string \<Rightarrow> string \<Rightarrow> (exn + string) \<times> filesystem" where
  "process_excel_file now fs excel_path output_dir archive_dir =
     (let filename = os_path_basename excel_path
      in case create_new_filename now filename of
           Inl e \<Rightarrow> (Inl e, fs)
         | Inr new_filename \<Rightarrow>
            (case get_output_path fs new_filename output_dir of
               (Inl e, fs1) \<Rightarrow> (Inl e, fs1)
             | (Inr output_path, fs1) \<Rightarrow>
                (case get_archive_path fs1 filename archive_dir of
                   (Inl e, fs2) \<Rightarrow> (Inl e, fs2)
                 | (Inr archive_path, fs2) \<Rightarrow>
                    (case unhide_all_sheets fs2 excel_path (Some output_path) of
                       (Inl e, fs3) \<Rightarrow> (Inl e, fs3)
                     | (Inr u, fs3) \<Rightarrow>
                        (case shutil_move fs3 excel_path archive_path of
                           Inl e \<Rightarrow> (Inl e, fs3)
                         | Inr fs4 \<Rightarrow> (Inr output_path, fs4))))))"

section \<open>Processing every workbook\<close>

text \<open>
  The result dictionary keeps its keys in the order of their first insertion; it is an
  association list. The entry of a file is a record with the three keys \<open>status\<close>,
  \<open>output\<close> and \<open>error\<close> of the source. \<open>clock i\<close> is what \<open>datetime.now()\<close> returns
  while the \<open>i\<close>-th file found is processed. The search for the files is made before
  the loop and outside its handler: what it raises, the batch raises.
\<close>

record file_result =
  res_status :: bool
  res_output :: "string option"
  res_error :: "string option"

fun dict_set :: "('k \<times> 'v) list \<Rightarrow> 'k \<Rightarrow> 'v \<Rightarrow> ('k \<times> 'v) list" where
  "dict_set [] k v = [(k, v)]"
| "dict_set ((k', v') # d) k v = (if k' = k then (k, v) # d else (k', v') # dict_set d k v)"

definition dict_modify :: "('k \<times> 'v) list \<Rightarrow> 'k \<Rightarrow> ('v \<Rightarrow> 'v) \<Rightarrow> ('k \<times> 'v) list" where
  \<comment> \<open>\<open>d[k][field] = x\<close> for a key that is there\<close>
  "dict_modify d k f = map (\<lambda>(k', v). if k' = k then (k', f v) else (k', v)) d"

fun process_loop ::
  "(nat \<Rightarrow> datetime) \<Rightarrow> string \<Rightarrow> string \<Rightarrow> nat \<Rightarrow> (string \<times> file_result) list \<Rightarrow> filesystem
     \<Rightarrow> string list \<Rightarrow> (string \<times> file_result) list \<times> filesystem" where
  "process_loop clock output_dir archive_dir i results fs [] = (results, fs)"
| "process_loop clock output_dir archive_dir i results fs (file_path # rest) =
     (let results = dict_set results file_path \<lparr>res_status = False, res_output = None, res_error = None\<rparr>
      in case process_excel_file (clock i) fs file_path output_dir archive_dir of
           (Inr output_path, fs') \<Rightarrow>
             (let results = dict_modify results file_path (\<lambda>r. r\<lparr>res_status := True\<rparr>);
                  results = dict_modify results file_path (\<lambda>r. r\<lparr>res_output := Some output_path\<rparr>)
              in process_loop clock output_dir archive_dir (Suc i) results fs' rest)
         | (Inl e, fs') \<Rightarrow>
             (let results = dict_modify results file_path (\<lambda>r. r\<lparr>res_error := Some (str_exn e)\<rparr>)
              in process_loop clock output_dir archive_dir (Suc i) results fs' rest))"

definition process_all_excel_files ::
  "glob_env \<Rightarrow> (nat \<Rightarrow> datetime) \<Rightarrow> filesystem \<Rightarrow> string \<Rightarrow> string \<Rightarrow> string
     \<Rightarrow> exn + (string \<times> file_result) list \<times> filesystem" where
  "process_all_excel_files env clock fs directory output_dir archive_dir =
     (case find_excel_files env directory of
        Inl e \<Rightarrow> Inl e
      | Inr excel_files \<Rightarrow> Inr (process_loop clock output_dir archive_dir 0 [] fs excel_files))"

subsection \<open>The batch, said file by file\<close>



definition one_populated :: "file_result \<Rightarrow> bool" where
  \<comment> \<open>exactly one of the output path and the error message is there, and the flag says
      which\<close>
  "one_populated r \<longleftrightarrow>
     ((res_output r \<noteq> None \<and> res_error r = None) \<or> (res_output r = None \<and> res_error r \<noteq> None))
     \<and> (res_status r \<longleftrightarrow> res_output r \<noteq> None)"

section \<open>Claims about \<open>format_date\<close>\<close>

subsection \<open>Decimal rendering\<close>

lemma digit_char_0 [simp]: "digit_char 0 = CHR ''0''"
  unfolding digit_char_def by code_simp

lemma str_nat_1digit: "n < 10 \<Longrightarrow> str_nat n = [digit_char n]"
  by (simp add: str_nat.simps)

lemma str_nat_2digits:
  assumes "10 \<le> n" "n < 100"
  shows "str_nat n = [digit_char (n div 10), digit_char (n mod 10)]"
proof -
  have "n div 10 < 10" using assms by simp
  then show ?thesis using assms by (simp add: str_nat.simps [of n] str_nat_1digit)
qed

lemma str_nat_4digits:
  assumes "1000 \<le> n" "n < 10000"
  shows "str_nat n = [digit_char (n div 1000), digit_char (n div 100 mod 10),
                      digit_char (n div 10 mod 10), digit_char (n mod 10)]"
proof -
  have a: "str_nat n = str_nat (n div 10) @ [digit_char (n mod 10)]"
    using assms by (simp add: str_nat.simps [of n])
  have "\<not> n div 10 < 10" using assms by simp
  then have b: "str_nat (n div 10) = str_nat (n div 10 div 10) @ [digit_char (n div 10 mod 10)]"
    by (simp add: str_nat.simps [of "n div 10"])
  have c: "10 \<le> n div 10 div 10" "n div 10 div 10 < 100" using assms by simp_all
  have d: "n div 10 div 10 = n div 100" "n div 100 div 10 = n div 1000"
    by (simp_all add: div_mult2_eq [symmetric])
  show ?thesis
    using str_nat_2digits [OF c] by (simp add: a b d)
qed

lemma format_02d_small:
  assumes "0 \<le> i" "i \<le> 99"
  shows "format_0wd 2 i = [digit_char (nat i div 10), digit_char (nat i mod 10)]"
proof (cases "i < 10")
  case True
  then have "str_nat (nat \<bar>i\<bar>) = [digit_char (nat i)]" "nat i div 10 = 0" "nat i mod 10 = nat i"
    using assms by (simp_all add: str_nat_1digit)
  then show ?thesis using assms by (simp add: format_0wd_def)
next
  case False
  then have "str_nat (nat \<bar>i\<bar>) = [digit_char (nat i div 10), digit_char (nat i mod 10)]"
    using assms by (simp add: str_nat_2digits)
  then show ?thesis using assms by (simp add: format_0wd_def)
qed

lemma str_int_4digits:
  assumes "1000 \<le> y" "y \<le> 9999"
  shows "str_int y = [digit_char (nat y div 1000), digit_char (nat y div 100 mod 10),
                      digit_char (nat y div 10 mod 10), digit_char (nat y mod 10)]"
  using assms by (simp add: str_int_def str_nat_4digits)

subsection \<open>The rendered date\<close>

text \<open>
  C6, as stated, at the tuple (1, 1, 5): the year is rendered \<open>5\<close>, one character and
  not a four-digit field, and the string is seven characters long instead of ten.
\<close>

theorem C6_format_date_counterexample:
  "format_date (1, 1, 5) = ''01-01-5'' \<and> length (format_date (1, 1, 5)) \<noteq> length ''MM-DD-YYYY''"
  by code_simp

text \<open>
  C6, amended: for a month and a day between 0 and 99 and a year between 1000 and 9999,
  \<open>format_date\<close> renders exactly the ten characters MM-DD-YYYY, the month and the day
  as their two decimal digits (a leading zero below ten) and the year as its four
  decimal digits (the year is rendered unpadded, so four digits need a four-digit
  year); and \<open>format_date (4, 27, 2025)\<close> is \<open>04-27-2025\<close>, \<open>format_date (1, 1, 2024)\<close> is
  \<open>01-01-2024\<close>.
\<close>

theorem C6_format_date:
  assumes "0 \<le> month" "month \<le> 99" "0 \<le> day" "day \<le> 99" "1000 \<le> year" "year \<le> 9999"
  shows "format_date (month, day, year) =
           [digit_char (nat month div 10), digit_char (nat month mod 10), CHR ''-'',
            digit_char (nat day div 10), digit_char (nat day mod 10), CHR ''-'',
            digit_char (nat year div 1000), digit_char (nat year div 100 mod 10),
            digit_char (nat year div 10 mod 10), digit_char (nat year mod 10)]
         \<and> format_date (4, 27, 2025) = ''04-27-2025''
         \<and> format_date (1, 1, 2024) = ''01-01-2024''"
proof -
  have ex1: "format_date (4, 27, 2025) = ''04-27-2025''" by code_simp
  have ex2: "format_date (1, 1, 2024) = ''01-01-2024''" by code_simp
  have "format_date (month, day, year) =
          format_0wd 2 month @ ''-'' @ format_0wd 2 day @ ''-'' @ str_int year"
    by (simp add: format_date_def)
  then show ?thesis
    using assms ex1 ex2 by (simp add: format_02d_small str_int_4digits)
qed

theorem C6_format_date_witness:
  "(0::int) \<le> 4 \<and> (4::int) \<le> 99 \<and> (0::int) \<le> 27 \<and> (27::int) \<le> 99
   \<and> (1000::int) \<le> 2025 \<and> (2025::int) \<le> 9999
   \<and> format_date (4, 27, 2025) =
        [digit_char 0, digit_char 4, CHR ''-'', digit_char 2, digit_char 7, CHR ''-'',
         digit_char 2, digit_char 0, digit_char 2, digit_char 5]"
  using C6_format_date [of 4 27 2025] by simp

section \<open>Claims about \<open>extract_date_from_filename\<close>\<close>

subsection \<open>Searching and matching\<close>

lemma re_search_first:
  "i \<le> length s \<Longrightarrow> m (drop i s) = Some g \<Longrightarrow> (\<forall>j<i. m (drop j s) = None) \<Longrightarrow> re_search m s = Some g"
proof (induction s arbitrary: i)
  case Nil
  then show ?case by simp
next
  case (Cons c cs)
  show ?case
  proof (cases i)
    case 0
    with Cons.prems show ?thesis by simp
  next
    case (Suc i')
    have a: "m (c # cs) = None" using Cons.prems(3) Suc by (metis drop0 zero_less_Suc)
    have b: "\<forall>j<i'. m (drop j cs) = None"
    proof (intro allI impI)
      fix j assume "j < i'"
      then have "Suc j < i" using Suc by simp
      then have "m (drop (Suc j) (c # cs)) = None" using Cons.prems(3) by blast
      then show "m (drop j cs) = None" by simp
    qed
    have "re_search m cs = Some g"
      using Cons.IH [of i'] Cons.prems(1,2) Suc b by simp
    then show ?thesis using a by simp
  qed
qed

lemma re_search_none:
  "(\<forall>j\<le>length s. m (drop j s) = None) \<Longrightarrow> re_search m s = None"
proof (induction s)
  case Nil
  then show ?case by simp
next
  case (Cons c cs)
  have a: "m (c # cs) = None" using Cons.prems by (metis drop0 le0)
  have "\<forall>j\<le>length cs. m (drop j cs) = None"
  proof (intro allI impI)
    fix j assume "j \<le> length cs"
    then have "m (drop (Suc j) (c # cs)) = None" using Cons.prems by (metis Suc_le_mono length_Cons)
    then show "m (drop j cs) = None" by simp
  qed
  then show ?case using Cons.IH a by simp
qed

lemma dot_pattern_eq:
  "dot_pattern t =
     (if 8 \<le> length t \<and> isdigit (t ! 0) \<and> isdigit (t ! 1) \<and> t ! 2 = CHR ''.'' \<and> isdigit (t ! 3)
         \<and> isdigit (t ! 4) \<and> t ! 5 = CHR ''.'' \<and> isdigit (t ! 6) \<and> isdigit (t ! 7)
      then Some ([t ! 0, t ! 1], [t ! 3, t ! 4], [t ! 6, t ! 7]) else None)"
  by (cases t rule: dot_pattern.cases) simp_all

lemma six_digits_eq:
  "six_digits t =
     (if 6 \<le> length t \<and> isdigit (t ! 0) \<and> isdigit (t ! 1) \<and> isdigit (t ! 2) \<and> isdigit (t ! 3)
         \<and> isdigit (t ! 4) \<and> isdigit (t ! 5)
      then Some ([t ! 0, t ! 1], [t ! 2, t ! 3], [t ! 4, t ! 5]) else None)"
  by (cases t rule: six_digits.cases) simp_all

lemma dot_pattern_drop:
  "dot_pattern (drop i s) =
     (if dotted_at s i then Some ([s ! i, s ! (i + 1)], [s ! (i + 3), s ! (i + 4)], [s ! (i + 6), s ! (i + 7)])
      else None)"
proof (cases "i + 8 \<le> length s")
  case True
  then have "8 \<le> length s - i" "i \<le> length s" by simp_all
  then show ?thesis using True by (simp add: dot_pattern_eq dotted_at_def)
next
  case False
  then have "\<not> 8 \<le> length s - i" by simp
  then show ?thesis using False by (simp add: dot_pattern_eq dotted_at_def)
qed

lemma py_int_pair: "py_int [a, b] = int (10 * digit_value a + digit_value b)"
  by (simp add: py_int_def)

lemma no_dot_pattern_eq:
  "no_dot_pattern t =
     (if 3 \<le> length t \<and> t ! 0 = CHR ''W'' \<and> t ! 1 = CHR ''E'' \<and> isspace (t ! 2)
      then six_digits (dropWhile isspace (drop 3 t)) else None)"
  by (cases t rule: no_dot_pattern.cases) simp_all

lemma digit_not_space: "isdigit c \<Longrightarrow> \<not> isspace c"
  by (auto simp: isdigit_def isspace_def)

lemma dropWhile_drop_run:
  "a \<le> b \<Longrightarrow> b \<le> length s \<Longrightarrow> (\<forall>j. a \<le> j \<and> j < b \<longrightarrow> P (s ! j)) \<Longrightarrow> (b < length s \<Longrightarrow> \<not> P (s ! b))
   \<Longrightarrow> dropWhile P (drop a s) = drop b s"
proof (induction "b - a" arbitrary: a)
  case 0
  then have ab: "a = b" by simp
  show ?case
  proof (cases "b < length s")
    case True
    then have "drop b s = s ! b # drop (Suc b) s" by (simp add: Cons_nth_drop_Suc)
    then show ?thesis using 0 True ab by simp
  next
    case False
    then show ?thesis using 0 ab by simp
  qed
next
  case (Suc n)
  then have lt: "a < b" "a < length s" by simp_all
  then have d: "drop a s = s ! a # drop (Suc a) s" by (simp add: Cons_nth_drop_Suc)
  have pa: "P (s ! a)" using Suc.prems(3) lt by simp
  have "dropWhile P (drop (Suc a) s) = drop b s"
    using Suc.hyps(1) [of "Suc a"] Suc.hyps(2) Suc.prems lt by simp
  then show ?case using d pa by simp
qed

lemma we_at_match:
  assumes "we_at s i k"
  shows "no_dot_pattern (drop i s) =
           Some ([s ! (i + 2 + k), s ! (i + 2 + k + 1)], [s ! (i + 2 + k + 2), s ! (i + 2 + k + 2 + 1)],
                 [s ! (i + 2 + k + 4), s ! (i + 2 + k + 4 + 1)])"
proof -
  from assms have k: "1 \<le> k" and len: "i + 2 + k + 6 \<le> length s"
    and w: "s ! i = CHR ''W''" and e: "s ! (i + 1) = CHR ''E''"
    and sp: "\<forall>j < k. isspace (s ! (i + 2 + j))" and dg: "\<forall>j < 6. isdigit (s ! (i + 2 + k + j))"
    by (simp_all add: we_at_def)
  have sp0: "isspace (s ! (i + 2))" using sp k by (metis add.right_neutral less_eq_Suc_le One_nat_def)
  have run: "\<forall>j. i + 3 \<le> j \<and> j < i + 2 + k \<longrightarrow> isspace (s ! j)"
  proof (intro allI impI)
    fix j assume a: "i + 3 \<le> j \<and> j < i + 2 + k"
    then have "j - (i + 2) < k" by arith
    then have "isspace (s ! (i + 2 + (j - (i + 2))))" using sp by blast
    moreover have "i + 2 + (j - (i + 2)) = j" using a by arith
    ultimately show "isspace (s ! j)" by (simp only:)
  qed
  have "isdigit (s ! (i + 2 + k))" using dg [rule_format, of 0] by simp
  then have stop: "\<not> isspace (s ! (i + 2 + k))" by (simp add: digit_not_space)
  have dw: "dropWhile isspace (drop (i + 3) s) = drop (i + 2 + k) s"
    using dropWhile_drop_run [of "i + 3" "i + 2 + k" s isspace] k len run stop by simp
  have d6: "isdigit (s ! (i + 2 + k))" "isdigit (s ! (i + 2 + k + 1))" "isdigit (s ! (i + 2 + k + 2))"
    "isdigit (s ! (i + 2 + k + 3))" "isdigit (s ! (i + 2 + k + 4))" "isdigit (s ! (i + 2 + k + 5))"
    using dg by (simp_all add: All_less_Suc numeral_eq_Suc)
  have l3: "3 \<le> length s - i" "i \<le> length s" "6 \<le> length s - (i + 2 + k)" "i + 2 + k \<le> length s"
    using len by simp_all
  have "no_dot_pattern (drop i s) = six_digits (drop (i + 2 + k) s)"
    using l3 w e sp0 dw by (simp add: no_dot_pattern_eq add.commute)
  also have "\<dots> = Some ([s ! (i + 2 + k), s ! (i + 2 + k + 1)], [s ! (i + 2 + k + 2), s ! (i + 2 + k + 3)],
                 [s ! (i + 2 + k + 4), s ! (i + 2 + k + 5)])"
    using l3 d6 by (simp add: six_digits_eq)
  finally have r: "no_dot_pattern (drop i s) =
      Some ([s ! (i + 2 + k), s ! (i + 2 + k + 1)], [s ! (i + 2 + k + 2), s ! (i + 2 + k + 3)],
            [s ! (i + 2 + k + 4), s ! (i + 2 + k + 5)])" .
  have e: "i + 2 + k + 2 + 1 = i + 2 + k + 3" "i + 2 + k + 4 + 1 = i + 2 + k + 5" by simp_all
  show ?thesis unfolding e by (rule r)
qed

lemma match_we_at:
  assumes "no_dot_pattern (drop i s) = Some g"
  shows "\<exists>k. we_at s i k"
proof -
  let ?t = "drop i s"
  let ?rest = "drop 3 ?t"
  let ?n = "length (takeWhile isspace ?rest)"
  from assms have c: "3 \<le> length ?t" "?t ! 0 = CHR ''W''" "?t ! 1 = CHR ''E''" "isspace (?t ! 2)"
    and six: "six_digits (dropWhile isspace ?rest) = Some g"
    by (simp_all add: no_dot_pattern_eq split: if_splits)
  have il: "i + 3 \<le> length s" using c(1) by simp
  have dd: "dropWhile isspace ?rest = drop (i + 3 + ?n) s"
    by (simp add: dropWhile_eq_drop add.commute add.left_commute)
  from six have s6: "6 \<le> length (drop (i + 3 + ?n) s)"
    and dg: "isdigit (drop (i + 3 + ?n) s ! 0)" "isdigit (drop (i + 3 + ?n) s ! 1)" "isdigit (drop (i + 3 + ?n) s ! 2)"
      "isdigit (drop (i + 3 + ?n) s ! 3)" "isdigit (drop (i + 3 + ?n) s ! 4)" "isdigit (drop (i + 3 + ?n) s ! 5)"
    unfolding dd by (simp_all add: six_digits_eq split: if_splits)
  have len: "i + 3 + ?n + 6 \<le> length s" using s6 by simp
  have sp: "\<forall>j < Suc ?n. isspace (s ! (i + 2 + j))"
  proof (intro allI impI)
    fix j assume a: "j < Suc ?n"
    show "isspace (s ! (i + 2 + j))"
    proof (cases j)
      case 0
      then show ?thesis using c(4) il by simp
    next
      case (Suc j')
      then have j': "j' < ?n" using a by simp
      then have "takeWhile isspace ?rest ! j' \<in> set (takeWhile isspace ?rest)" by simp
      then have "isspace (takeWhile isspace ?rest ! j')" by (meson set_takeWhileD)
      moreover have "takeWhile isspace ?rest ! j' = ?rest ! j'" using j' by (rule takeWhile_nth)
      moreover have "j' < length ?rest" using j' by (meson length_takeWhile_le less_le_trans)
      ultimately have "isspace (s ! (i + 3 + j'))" using il by (simp add: add.commute add.left_commute)
      moreover have "i + 2 + j = i + 3 + j'" using Suc by simp
      ultimately show ?thesis by (simp only:)
    qed
  qed
  have d6: "\<forall>j < 6. isdigit (s ! (i + 2 + Suc ?n + j))"
    using dg len by (simp add: All_less_Suc numeral_eq_Suc add.commute add.left_commute)
  have "we_at s i (Suc ?n)"
    unfolding we_at_def using c il len sp d6 by simp
  then show ?thesis ..
qed

lemma no_dotted_bounded:
  assumes "length s \<le> n + 7" and "\<forall>j<n. \<not> dotted_at s j"
  shows "\<not> dotted_at s j"
proof
  assume d: "dotted_at s j"
  then have "j + 8 \<le> length s" by (simp add: dotted_at_def)
  then have "j < n" using assms(1) by arith
  with assms(2) d show False by blast
qed

subsection \<open>The dotted pattern\<close>

text \<open>
  C5: when a file name contains two digits, a dot, two digits, a dot and two digits,
  and \<open>i\<close> is the offset of the first such substring, the result is the first pair as
  the month, the second pair as the day and 2000 plus the third pair as the year. The
  pairs are not checked against the calendar, and neither the rest of the file name (a
  \<open>WE\<close> match included) nor the clock has any influence.
\<close>

theorem C5_dotted_date:
  assumes "dotted_at filename i" and "\<forall>j<i. \<not> dotted_at filename j"
  shows "extract_date_from_filename now filename =
           Inr (pair_value filename i, pair_value filename (i + 3), 2000 + pair_value filename (i + 6))"
proof -
  have le: "i \<le> length filename" using assms(1) by (simp add: dotted_at_def)
  have m: "dot_pattern (drop i filename) =
             Some ([filename ! i, filename ! (i + 1)], [filename ! (i + 3), filename ! (i + 4)],
                   [filename ! (i + 6), filename ! (i + 7)])"
    using assms(1) by (simp add: dot_pattern_drop)
  have n: "\<forall>j<i. dot_pattern (drop j filename) = None"
    using assms(2) by (simp add: dot_pattern_drop)
  have "re_search dot_pattern filename =
          Some ([filename ! i, filename ! (i + 1)], [filename ! (i + 3), filename ! (i + 4)],
                [filename ! (i + 6), filename ! (i + 7)])"
    using le m n by (rule re_search_first)
  then show ?thesis
    by (simp add: extract_date_from_filename_def py_int_pair pair_value_def ac_simps)
qed

text \<open>
  A file name that also has a \<open>WE\<close> match before the dotted date, and a dotted date that
  is no calendar date: the dotted date is returned as it is.
\<close>

theorem C5_dotted_date_witness:
  "dotted_at ''WE 010203 99.88.77'' 10 \<and> (\<forall>j. \<not> (j < 10 \<and> dotted_at ''WE 010203 99.88.77'' j))
   \<and> extract_date_from_filename \<lparr>dt_year = 2024, dt_month = 5, dt_day = 15\<rparr> ''WE 010203 99.88.77''
       = Inr (99, 88, 2077)"
proof -
  have h1: "dotted_at ''WE 010203 99.88.77'' 10"
    by (simp add: dotted_at_def isdigit_def)
  have h2: "\<forall>j<10. \<not> dotted_at ''WE 010203 99.88.77'' j"
    by (simp add: dotted_at_def isdigit_def All_less_Suc numeral_eq_Suc)
  have h2': "\<forall>j. \<not> (j < 10 \<and> dotted_at ''WE 010203 99.88.77'' j)" using h2 by blast
  have "extract_date_from_filename \<lparr>dt_year = 2024, dt_month = 5, dt_day = 15\<rparr> ''WE 010203 99.88.77''
          = Inr (99, 88, 2077)"
    using C5_dotted_date [OF h1 h2, of "\<lparr>dt_year = 2024, dt_month = 5, dt_day = 15\<rparr>"]
    by (simp add: pair_value_def digit_value_def)
  with h1 h2' show ?thesis by (intro conjI)
qed

subsection \<open>The pattern without dots\<close>

text \<open>
  C1, as stated, at the file name \<open>WE 042025 01.02.03\<close>: it contains \<open>WE\<close>, a space and
  six digits, yet the result is taken from the dotted date, which is tried first.
\<close>

theorem C1_we_date_counterexample:
  "we_at ''WE 042025 01.02.03'' 0 1
   \<and> extract_date_from_filename \<lparr>dt_year = 2024, dt_month = 5, dt_day = 15\<rparr> ''WE 042025 01.02.03''
       = Inr (1, 2, 2003)
   \<and> extract_date_from_filename \<lparr>dt_year = 2024, dt_month = 5, dt_day = 15\<rparr> ''WE 042025 01.02.03''
       \<noteq> Inr (4, 20, 2025)"
proof -
  have "we_at ''WE 042025 01.02.03'' 0 1"
    by (simp add: we_at_def isdigit_def isspace_def All_less_Suc numeral_eq_Suc)
  moreover have "extract_date_from_filename \<lparr>dt_year = 2024, dt_month = 5, dt_day = 15\<rparr> ''WE 042025 01.02.03''
       = Inr (1, 2, 2003)"
    by code_simp
  ultimately show ?thesis by simp
qed

text \<open>
  C1, amended: when a file name contains no dotted date, and \<open>WE\<close>, \<open>k \<ge> 1\<close> whitespace
  characters and six digits start at offset \<open>i\<close>, and at no earlier offset, the result
  is the first two of the six digits as the month, the next two as the day and 2000
  plus the last two as the year: the six digits are consumed two by two.
\<close>

theorem C1_we_date:
  assumes "we_at filename i k" and "\<forall>i'<i. \<forall>k'. \<not> we_at filename i' k'"
    and "\<forall>j. \<not> dotted_at filename j"
  shows "extract_date_from_filename now filename =
           Inr (pair_value filename (i + 2 + k), pair_value filename (i + 2 + k + 2),
                2000 + pair_value filename (i + 2 + k + 4))"
proof -
  have "re_search dot_pattern filename = None"
    using assms(3) by (simp add: re_search_none dot_pattern_drop)
  moreover have "re_search no_dot_pattern filename =
      Some ([filename ! (i + 2 + k), filename ! (i + 2 + k + 1)],
            [filename ! (i + 2 + k + 2), filename ! (i + 2 + k + 2 + 1)],
            [filename ! (i + 2 + k + 4), filename ! (i + 2 + k + 4 + 1)])"
  proof (rule re_search_first)
    show "i \<le> length filename" using assms(1) by (simp add: we_at_def)
    show "no_dot_pattern (drop i filename) =
      Some ([filename ! (i + 2 + k), filename ! (i + 2 + k + 1)],
            [filename ! (i + 2 + k + 2), filename ! (i + 2 + k + 2 + 1)],
            [filename ! (i + 2 + k + 4), filename ! (i + 2 + k + 4 + 1)])"
      using assms(1) by (rule we_at_match)
    show "\<forall>j<i. no_dot_pattern (drop j filename) = None"
    proof (intro allI impI)
      fix j assume "j < i"
      then have "\<forall>k'. \<not> we_at filename j k'" using assms(2) by blast
      then show "no_dot_pattern (drop j filename) = None"
        using match_we_at [of j filename] by (cases "no_dot_pattern (drop j filename)") auto
    qed
  qed
  ultimately show ?thesis
    by (simp add: extract_date_from_filename_def py_int_pair pair_value_def)
qed

text \<open>The file name \<open>CYTD WE 042025.xlsx\<close> gives (4, 20, 2025), not (4, 25, 2025).\<close>

theorem C1_we_date_witness:
  "we_at ''CYTD WE 042025.xlsx'' 5 1
   \<and> (\<forall>i' k'. \<not> (i' < 5 \<and> we_at ''CYTD WE 042025.xlsx'' i' k'))
   \<and> (\<forall>j. \<not> dotted_at ''CYTD WE 042025.xlsx'' j)
   \<and> extract_date_from_filename \<lparr>dt_year = 2024, dt_month = 5, dt_day = 15\<rparr> ''CYTD WE 042025.xlsx''
       = Inr (4, 20, 2025)"
proof -
  have h1: "we_at ''CYTD WE 042025.xlsx'' 5 1"
    by (simp add: we_at_def isdigit_def isspace_def All_less_Suc numeral_eq_Suc)
  have h2: "\<forall>i'<5. \<forall>k'. \<not> we_at ''CYTD WE 042025.xlsx'' i' k'"
    by (simp add: we_at_def All_less_Suc numeral_eq_Suc)
  have b: "\<forall>j<12. \<not> dotted_at ''CYTD WE 042025.xlsx'' j"
    by (simp add: dotted_at_def isdigit_def All_less_Suc numeral_eq_Suc)
  have h3: "\<forall>j. \<not> dotted_at ''CYTD WE 042025.xlsx'' j"
    by (intro allI no_dotted_bounded [OF _ b]) simp
  have h2': "\<forall>i' k'. \<not> (i' < 5 \<and> we_at ''CYTD WE 042025.xlsx'' i' k')" using h2 by blast
  have "extract_date_from_filename \<lparr>dt_year = 2024, dt_month = 5, dt_day = 15\<rparr> ''CYTD WE 042025.xlsx''
          = Inr (4, 20, 2025)"
    using C1_we_date [OF h1 h2 h3, of "\<lparr>dt_year = 2024, dt_month = 5, dt_day = 15\<rparr>"]
    by (simp add: pair_value_def digit_value_def)
  with h1 h2' h3 show ?thesis by (intro conjI)
qed

subsection \<open>The calendar\<close>

text \<open>
  The ordinal of the date computed from an ordinal is that ordinal again, and the
  ordinal of a date that \<open>datetime\<close> can hold lies between 1 and \<open>MAXORDINAL\<close>.
\<close>

lemma DI_values [simp]: "DI400Y = 146097" "DI100Y = 36524" "DI4Y = 1461"
  by (simp_all add: DI400Y_def DI100Y_def DI4Y_def days_before_year_def)

lemma div_decomp: "0 \<le> k \<Longrightarrow> k < m \<Longrightarrow> (m * q + k) div m = (q::int)"
  by (simp add: div_pos_pos_trivial)

lemma mod_decomp: "0 \<le> k \<Longrightarrow> k < m \<Longrightarrow> (m * q + k) mod m = (k::int)"
  by (simp add: mod_pos_pos_trivial)

lemma days_before_year_cycles:
  assumes "0 \<le> b" "b \<le> 3" "0 \<le> c" "c \<le> 24" "0 \<le> d" "d \<le> 3"
  shows "days_before_year (400 * a + 100 * b + 4 * c + d + 1) = 146097 * a + 36524 * b + 1461 * c + 365 * d"
proof -
  let ?y = "400 * a + 100 * b + 4 * c + d"
  have "?y = 4 * (100 * a + 25 * b + c) + d" by simp
  then have d4: "?y div 4 = 100 * a + 25 * b + c"
    using div_decomp [of d 4 "100 * a + 25 * b + c"] assms by simp
  have "?y = 100 * (4 * a + b) + (4 * c + d)" by simp
  then have d100: "?y div 100 = 4 * a + b"
    using div_decomp [of "4 * c + d" 100 "4 * a + b"] assms by simp
  have d400: "?y div 400 = a"
    using div_decomp [of "100 * b + 4 * c + d" 400 a] assms by (simp add: add.assoc)
  show ?thesis
    by (simp add: days_before_year_def d4 d100 d400)
qed

lemma mod_zero_decomp:
  assumes "0 < k" "k \<le> m"
  shows "(m * q + k) mod m = 0 \<longleftrightarrow> k = (m::int)"
proof (cases "k = m")
  case True
  then show ?thesis by simp
next
  case False
  then have "(m * q + k) mod m = k" using assms by (simp add: mod_decomp)
  then show ?thesis using assms False by simp
qed

lemma is_leap_cycles:
  assumes "0 \<le> b" "b \<le> 3" "0 \<le> c" "c \<le> 24" "0 \<le> d" "d \<le> 3"
  shows "is_leap (400 * a + 100 * b + 4 * c + d + 1) \<longleftrightarrow> d = 3 \<and> (c \<noteq> 24 \<or> b = 3)"
proof -
  let ?y = "400 * a + 100 * b + 4 * c + d + 1"
  have e4: "?y = 4 * (100 * a + 25 * b + c) + (d + 1)" by simp
  have "(4 * (100 * a + 25 * b + c) + (d + 1)) mod 4 = 0 \<longleftrightarrow> d + 1 = 4"
    using assms by (intro mod_zero_decomp) simp_all
  then have m4: "?y mod 4 = 0 \<longleftrightarrow> d + 1 = 4" by (simp only: e4)
  have e100: "?y = 100 * (4 * a + b) + (4 * c + d + 1)" by simp
  have "(100 * (4 * a + b) + (4 * c + d + 1)) mod 100 = 0 \<longleftrightarrow> 4 * c + d + 1 = 100"
    using assms by (intro mod_zero_decomp) simp_all
  then have m100: "?y mod 100 = 0 \<longleftrightarrow> 4 * c + d + 1 = 100" by (simp only: e100)
  have e400: "?y = 400 * a + (100 * b + 4 * c + d + 1)" by simp
  have "(400 * a + (100 * b + 4 * c + d + 1)) mod 400 = 0 \<longleftrightarrow> 100 * b + 4 * c + d + 1 = 400"
    using assms by (intro mod_zero_decomp) simp_all
  then have m400: "?y mod 400 = 0 \<longleftrightarrow> 100 * b + 4 * c + d + 1 = 400" by (simp only: e400)
  show ?thesis unfolding is_leap_def m4 m100 m400 using assms by auto
qed

lemma preceding_adjusted:
  assumes "2 \<le> m" "m \<le> 12"
  shows "DAYS_BEFORE_MONTH ! nat m + (if m > 2 \<and> leap then 1 else 0)
           - (DAYS_IN_MONTH ! nat (m - 1) + (if m - 1 = 2 \<and> leap then 1 else 0))
         = DAYS_BEFORE_MONTH ! nat (m - 1) + (if m - 1 > 2 \<and> leap then 1 else 0)"
proof -
  have "m = 2 \<or> m = 3 \<or> m = 4 \<or> m = 5 \<or> m = 6 \<or> m = 7 \<or> m = 8 \<or> m = 9 \<or> m = 10 \<or> m = 11 \<or> m = 12"
    using assms by arith
  then show ?thesis
    by (elim disjE) (simp_all add: DAYS_BEFORE_MONTH_def DAYS_IN_MONTH_def)
qed

lemma ymd2ord_ord2ymd: "(case ord2ymd n of (y, m, d) \<Rightarrow> ymd2ord y m d) = n"
proof -
  define a where "a = (n - 1) div 146097"
  define r1 where "r1 = (n - 1) mod 146097"
  define b where "b = r1 div 36524"
  define r2 where "r2 = r1 mod 36524"
  define c where "c = r2 div 1461"
  define r3 where "r3 = r2 mod 1461"
  define d where "d = r3 div 365"
  define r where "r = r3 mod 365"
  have e1: "n - 1 = 146097 * a + r1" and b1: "0 \<le> r1" "r1 < 146097"
    by (simp_all add: a_def r1_def)
  have e2: "r1 = 36524 * b + r2" and b2: "0 \<le> r2" "r2 < 36524"
    by (simp_all add: b_def r2_def)
  have e3: "r2 = 1461 * c + r3" and b3: "0 \<le> r3" "r3 < 1461"
    by (simp_all add: c_def r3_def)
  have e4: "r3 = 365 * d + r" and b4: "0 \<le> r" "r < 365"
    by (simp_all add: d_def r_def)
  have bb: "0 \<le> b" "b \<le> 4" using e2 b1 b2 by linarith+
  have bc: "0 \<le> c" "c \<le> 24" using e3 b2 b3 by linarith+
  have bd: "0 \<le> d" "d \<le> 4" using e4 b3 b4 by linarith+
  define Y where "Y = 400 * a + 100 * b + 4 * c + d + 1"
  define leap where "leap \<longleftrightarrow> d = 3 \<and> (c \<noteq> 24 \<or> b = 3)"
  define m where "m = (r + 50) div 32"
  define p where "p = DAYS_BEFORE_MONTH ! nat m + (if m > 2 \<and> leap then 1 else 0)"
  have o: "ord2ymd n =
      (if d = 4 \<or> b = 4 then (Y - 1, 12, 31)
       else if p > r
            then (Y, m - 1, r - (p - (DAYS_IN_MONTH ! nat (m - 1) + (if m - 1 = 2 \<and> leap then 1 else 0))) + 1)
            else (Y, m, r - p + 1))"
    unfolding ord2ymd_def Let_def DI_values a_def [symmetric] r1_def [symmetric] b_def [symmetric]
      r2_def [symmetric] c_def [symmetric] r3_def [symmetric] d_def [symmetric] r_def [symmetric]
      m_def [symmetric] leap_def [symmetric] p_def [symmetric]
    by (simp add: Y_def)
  show ?thesis
  proof (cases "d = 4 \<or> b = 4")
    case True
    have res: "ord2ymd n = (Y - 1, 12, 31)" using True by (simp add: o)
    show ?thesis
    proof (cases "b = 4")
      case b4': True
      have "r2 = 0" using e2 b1 b2 b4' by linarith
      then have z: "c = 0" "d = 0" "r = 0" by (simp_all add: c_def r3_def d_def r_def)
      have r0: "n - 1 = 146097 * a + 146096" using e1 e2 b4' \<open>r2 = 0\<close> by simp
      have y: "Y - 1 = 400 * a + 100 * 3 + 4 * 24 + 3 + 1" by (simp add: Y_def z b4')
      have dby: "days_before_year (Y - 1) = 146097 * a + 36524 * 3 + 1461 * 24 + 365 * 3"
        unfolding y by (intro days_before_year_cycles) simp_all
      have lp: "is_leap (Y - 1)"
        unfolding y by (subst is_leap_cycles) simp_all
      have "ymd2ord (Y - 1) 12 31 = 146097 * a + 146097"
        by (simp add: ymd2ord_def dby days_before_month_def lp DAYS_BEFORE_MONTH_def)
      then have "ymd2ord (Y - 1) 12 31 = n" using r0 by linarith
      then show ?thesis by (simp add: res)
    next
      case False
      then have d4: "d = 4" and bb': "b \<le> 3" using True bb by simp_all
      have rz: "r = 0" using e4 b3 b4 d4 by linarith
      have c23: "c \<le> 23" using e3 e4 b2 d4 rz by linarith
      have r0: "n - 1 = 146097 * a + 36524 * b + 1461 * c + 1460" using e1 e2 e3 e4 d4 rz by simp
      have y: "Y - 1 = 400 * a + 100 * b + 4 * c + 3 + 1" by (simp add: Y_def d4)
      have dby: "days_before_year (Y - 1) = 146097 * a + 36524 * b + 1461 * c + 365 * 3"
        unfolding y using bb bb' bc c23 by (intro days_before_year_cycles) simp_all
      have "is_leap (400 * a + 100 * b + 4 * c + 3 + 1) \<longleftrightarrow> (3::int) = 3 \<and> (c \<noteq> 24 \<or> b = 3)"
        using bb bb' bc by (intro is_leap_cycles) simp_all
      then have lp: "is_leap (Y - 1)" unfolding y using c23 by simp
      have "ymd2ord (Y - 1) 12 31 = 146097 * a + 36524 * b + 1461 * c + 1461"
        by (simp add: ymd2ord_def dby days_before_month_def lp DAYS_BEFORE_MONTH_def)
      then have "ymd2ord (Y - 1) 12 31 = n" using r0 by linarith
      then show ?thesis by (simp add: res)
    qed
  next
    case False
    then have bb': "b \<le> 3" and bd': "d \<le> 3" using bb bd by simp_all
    have dby: "days_before_year Y = 146097 * a + 36524 * b + 1461 * c + 365 * d"
      unfolding Y_def using bb bb' bc bd bd' by (intro days_before_year_cycles) simp_all
    have lp: "is_leap Y \<longleftrightarrow> leap"
      unfolding Y_def leap_def using bb bb' bc bd bd' by (intro is_leap_cycles) simp_all
    have mb: "1 \<le> m" "m \<le> 12" using b4 by (simp_all add: m_def)
    show ?thesis
    proof (cases "p > r")
      case True
      have "m \<noteq> 1"
      proof
        assume "m = 1"
        then have "p = 0" by (simp add: p_def DAYS_BEFORE_MONTH_def)
        with True b4 show False by simp
      qed
      then have m2: "2 \<le> m" using mb by simp
      have "p - (DAYS_IN_MONTH ! nat (m - 1) + (if m - 1 = 2 \<and> leap then 1 else 0))
            = DAYS_BEFORE_MONTH ! nat (m - 1) + (if m - 1 > 2 \<and> leap then 1 else 0)"
        unfolding p_def using m2 mb(2) by (rule preceding_adjusted)
      then show ?thesis
        using True False e1 e2 e3 e4 by (simp add: o ymd2ord_def dby days_before_month_def lp)
    next
      case F2: False
      then show ?thesis
        using False e1 e2 e3 e4 by (simp add: o ymd2ord_def dby days_before_month_def lp p_def)
    qed
  qed
qed

lemma toordinal_fromordinal: "toordinal (fromordinal n) = n"
  using ymd2ord_ord2ymd [of n] by (simp add: toordinal_def fromordinal_def split: prod.splits)

lemma div_step:
  assumes "0 < c"
  shows "y div c = (y - 1) div c + (if y mod c = 0 then 1 else (0::int))"
proof -
  define q where "q = (y - 1) div c"
  define r where "r = (y - 1) mod c"
  have "y - 1 = c * q + r" by (simp add: q_def r_def)
  then have e: "y = c * q + (r + 1)" by simp
  have b: "0 \<le> r" "r < c" using assms by (simp_all add: r_def)
  show ?thesis
  proof (cases "r + 1 = c")
    case True
    then have y': "y = c * (q + 1)" using e by (simp add: algebra_simps)
    have "y div c = q + 1" "y mod c = 0" unfolding y' using assms by simp_all
    then show ?thesis by (simp add: q_def)
  next
    case False
    then have lt: "0 \<le> r + 1" "r + 1 < c" using b by simp_all
    have "(c * q + (r + 1)) div c = q" "(c * q + (r + 1)) mod c = r + 1"
      using lt by (simp_all only: div_decomp mod_decomp)
    then have "y div c = q" "y mod c = r + 1" using e by simp_all
    then show ?thesis using b by (simp add: q_def)
  qed
qed

lemma days_before_year_Suc:
  "days_before_year (y + 1) = days_before_year y + (if is_leap y then 366 else 365)"
proof -
  have d4: "y div 4 = (y - 1) div 4 + (if y mod 4 = 0 then 1 else 0)" by (rule div_step) simp
  have d100: "y div 100 = (y - 1) div 100 + (if y mod 100 = 0 then 1 else 0)" by (rule div_step) simp
  have d400: "y div 400 = (y - 1) div 400 + (if y mod 400 = 0 then 1 else 0)" by (rule div_step) simp
  have i1: "y mod 4 = 0" if "y mod 100 = 0"
  proof -
    from that have "100 dvd y" by (simp add: mod_eq_0_iff_dvd)
    moreover have "(4::int) dvd 100" by simp
    ultimately have "4 dvd y" by (rule dvd_trans [rotated])
    then show ?thesis by (simp add: mod_eq_0_iff_dvd)
  qed
  have i2: "y mod 100 = 0" if "y mod 400 = 0"
  proof -
    from that have "400 dvd y" by (simp add: mod_eq_0_iff_dvd)
    moreover have "(100::int) dvd 400" by simp
    ultimately have "100 dvd y" by (rule dvd_trans [rotated])
    then show ?thesis by (simp add: mod_eq_0_iff_dvd)
  qed
  have s: "days_before_year (y + 1) = y * 365 + y div 4 - y div 100 + y div 400"
    by (simp add: days_before_year_def)
  have t: "days_before_year y = (y - 1) * 365 + (y - 1) div 4 - (y - 1) div 100 + (y - 1) div 400"
    by (simp add: days_before_year_def Let_def)
  have k: "(365::int) + (if y mod 4 = 0 then 1 else 0) - (if y mod 100 = 0 then 1 else 0)
             + (if y mod 400 = 0 then 1 else 0) = (if is_leap y then 366 else 365)"
  proof (cases "y mod 4 = 0")
    case True
    then show ?thesis using i2 by (simp add: is_leap_def)
  next
    case False
    then have n100: "y mod 100 \<noteq> 0" using i1 by auto
    then have "y mod 400 \<noteq> 0" using i2 by auto
    with n100 have "y mod 100 \<noteq> 0" "y mod 400 \<noteq> 0" by simp_all
    then show ?thesis using False by (simp add: is_leap_def)
  qed
  have "y * 365 + y div 4 - y div 100 + y div 400
        = (y - 1) * 365 + (y - 1) div 4 - (y - 1) div 100 + (y - 1) div 400
          + (365 + (if y mod 4 = 0 then 1 else 0) - (if y mod 100 = 0 then 1 else 0)
             + (if y mod 400 = 0 then 1 else 0))"
    unfolding d4 d100 d400 by (simp add: algebra_simps)
  then show ?thesis unfolding s t k .
qed

lemma days_before_year_mono: "y \<le> y' \<Longrightarrow> days_before_year y \<le> days_before_year y'"
proof (induction y' rule: int_ge_induct)
  case base
  show ?case by simp
next
  case (step i)
  then show ?case by (simp add: days_before_year_Suc)
qed

lemma day_of_year_bound:
  assumes "1 \<le> m" "m \<le> 12" "1 \<le> d" "d \<le> days_in_month y m"
  shows "1 \<le> days_before_month y m + d" "days_before_month y m + d \<le> (if is_leap y then 366 else 365)"
proof -
  have c: "m = 1 \<or> m = 2 \<or> m = 3 \<or> m = 4 \<or> m = 5 \<or> m = 6 \<or> m = 7 \<or> m = 8 \<or> m = 9 \<or> m = 10
         \<or> m = 11 \<or> m = 12"
    using assms(1,2) by arith
  show "1 \<le> days_before_month y m + d"
    using c assms(3) by (elim disjE) (simp_all add: days_before_month_def DAYS_BEFORE_MONTH_def)
  show "days_before_month y m + d \<le> (if is_leap y then 366 else 365)"
    using c assms(4)
    by (elim disjE)
       (simp_all add: days_before_month_def days_in_month_def DAYS_BEFORE_MONTH_def DAYS_IN_MONTH_def
          split: if_splits)
qed

lemma toordinal_range:
  assumes "valid_datetime now"
  shows "1 \<le> toordinal now" "toordinal now \<le> MAXORDINAL"
proof -
  let ?y = "dt_year now"
  from assms have y: "1 \<le> ?y" "?y \<le> 9999"
    and md: "1 \<le> dt_month now" "dt_month now \<le> 12" "1 \<le> dt_day now"
      "dt_day now \<le> days_in_month ?y (dt_month now)"
    by (simp_all add: valid_datetime_def)
  have lo: "days_before_year 1 \<le> days_before_year ?y" using y(1) by (rule days_before_year_mono)
  have "?y + 1 \<le> 10000" using y(2) by simp
  then have hi: "days_before_year (?y + 1) \<le> days_before_year 10000" by (rule days_before_year_mono)
  have z: "days_before_year 1 = 0" "days_before_year 10000 = 3652059"
    by (simp_all add: days_before_year_def)
  show "1 \<le> toordinal now"
    using lo day_of_year_bound(1) [OF md] by (simp add: toordinal_def ymd2ord_def z)
  show "toordinal now \<le> MAXORDINAL"
    using hi day_of_year_bound(2) [OF md]
    by (simp add: toordinal_def ymd2ord_def z MAXORDINAL_def days_before_year_Suc split: if_splits)
qed

lemma weekday_range: "0 \<le> weekday d" "weekday d \<le> 6"
proof -
  have "0 \<le> (toordinal d + 6) mod 7" "(toordinal d + 6) mod 7 < 7" by simp_all
  then show "0 \<le> weekday d" "weekday d \<le> 6" by (simp_all add: weekday_def)
qed

lemma weekday_before:
  "weekday (fromordinal (toordinal d - (weekday d + 1))) = 6"
proof -
  define t where "t = toordinal d + 6"
  define q where "q = t div 7"
  define w where "w = t mod 7"
  have e: "t = 7 * q + w" by (simp add: q_def w_def)
  have wd: "weekday d = w" by (simp add: weekday_def w_def t_def)
  have "toordinal d + 6 = 7 * q + w" using e by (simp only: t_def)
  then have eq: "toordinal d - (w + 1) + 6 = 7 * (q - 1) + 6" by simp
  have "(toordinal d - (w + 1) + 6) mod 7 = 6"
    unfolding eq by (rule mod_decomp) simp_all
  then show ?thesis by (simp add: weekday_def [of "fromordinal _"] toordinal_fromordinal wd)
qed

lemma no_we_bounded:
  assumes "length s \<le> n + 8" and "\<forall>i<n. s ! i \<noteq> CHR ''W''"
  shows "\<not> we_at s i k"
proof
  assume w: "we_at s i k"
  then have "i + 9 \<le> length s" "s ! i = CHR ''W''" by (simp_all add: we_at_def)
  then have "i < n" using assms(1) by arith
  with assms(2) \<open>s ! i = CHR ''W''\<close> show False by blast
qed

subsection \<open>The fallback\<close>

text \<open>
  C2, as stated, on Sunday 12 May 2024 with a file name that matches neither pattern:
  the specification's offset is 0, which would return 12 May itself; the code subtracts
  \<open>weekday + 1 = 7\<close> days and returns 5 May.
\<close>

theorem C2_previous_sunday_counterexample:
  "re_search dot_pattern ''report.xlsx'' = None \<and> re_search no_dot_pattern ''report.xlsx'' = None
   \<and> weekday \<lparr>dt_year = 2024, dt_month = 5, dt_day = 12\<rparr> = 6
   \<and> spec_days_since_sunday \<lparr>dt_year = 2024, dt_month = 5, dt_day = 12\<rparr> = 0
   \<and> extract_date_from_filename \<lparr>dt_year = 2024, dt_month = 5, dt_day = 12\<rparr> ''report.xlsx''
       = Inr (5, 5, 2024)
   \<and> extract_date_from_filename \<lparr>dt_year = 2024, dt_month = 5, dt_day = 12\<rparr> ''report.xlsx''
       \<noteq> Inr (5, 12, 2024)"
  by code_simp

text \<open>
  C2, amended: for a file name that matches neither pattern and a clock date after
  7 January of year 1, the result is the month, day and year of the date
  \<open>weekday + 1\<close> days before the clock date. That date is a Sunday; the offset is 1 on
  a Monday, 2 on a Tuesday, up to 6 on a Saturday, as the specification says, and 7 on a
  Sunday, so that on a Sunday the result is the Sunday one week earlier.
\<close>

theorem C2_previous_sunday:
  assumes "\<forall>j. \<not> dotted_at filename j" and "\<forall>i k. \<not> we_at filename i k"
    and "valid_datetime now" and "7 < toordinal now"
  shows "(let days_since_sunday = weekday now + 1;
              previous_sunday = fromordinal (toordinal now - days_since_sunday)
          in extract_date_from_filename now filename
               = Inr (dt_month previous_sunday, dt_day previous_sunday, dt_year previous_sunday)
             \<and> toordinal previous_sunday = toordinal now - days_since_sunday
             \<and> weekday previous_sunday = 6
             \<and> 1 \<le> days_since_sunday \<and> days_since_sunday \<le> 7
             \<and> (weekday now = 6 \<longrightarrow> days_since_sunday = 7)
             \<and> (weekday now \<noteq> 6 \<longrightarrow> days_since_sunday = spec_days_since_sunday now))"
proof -
  have d: "re_search dot_pattern filename = None"
    using assms(1) by (simp add: re_search_none dot_pattern_drop)
  have "no_dot_pattern (drop j filename) = None" for j
    using assms(2) match_we_at [of j filename] by (cases "no_dot_pattern (drop j filename)") auto
  then have w: "re_search no_dot_pattern filename = None" by (simp add: re_search_none)
  have r: "0 \<le> weekday now" "weekday now \<le> 6" by (rule weekday_range)+
  have hi: "toordinal now \<le> MAXORDINAL" using assms(3) by (rule toordinal_range)
  have s: "datetime_sub_days now (weekday now + 1) = Inr (fromordinal (toordinal now - (weekday now + 1)))"
    using r hi assms(4) by (simp add: datetime_sub_days_def)
  have x: "extract_date_from_filename now filename =
             Inr (dt_month (fromordinal (toordinal now - (weekday now + 1))),
                  dt_day (fromordinal (toordinal now - (weekday now + 1))),
                  dt_year (fromordinal (toordinal now - (weekday now + 1))))"
    by (simp add: extract_date_from_filename_def d w s)
  have m: "weekday now \<noteq> 6 \<Longrightarrow> weekday now + 1 = spec_days_since_sunday now"
    using r by (simp add: spec_days_since_sunday_def mod_pos_pos_trivial)
  show ?thesis
    using x r m by (simp add: Let_def toordinal_fromordinal weekday_before)
qed

text \<open>On Wednesday 15 May 2024 the result is (5, 12, 2024).\<close>

theorem C2_previous_sunday_witness:
  "(\<forall>j. \<not> dotted_at ''report.xlsx'' j) \<and> (\<forall>i k. \<not> we_at ''report.xlsx'' i k)
   \<and> valid_datetime \<lparr>dt_year = 2024, dt_month = 5, dt_day = 15\<rparr>
   \<and> 7 < toordinal \<lparr>dt_year = 2024, dt_month = 5, dt_day = 15\<rparr>
   \<and> weekday \<lparr>dt_year = 2024, dt_month = 5, dt_day = 15\<rparr> = 2
   \<and> extract_date_from_filename \<lparr>dt_year = 2024, dt_month = 5, dt_day = 15\<rparr> ''report.xlsx''
       = Inr (5, 12, 2024)"
proof -
  let ?now = "\<lparr>dt_year = 2024, dt_month = 5, dt_day = 15\<rparr>"
  have b: "\<forall>j<4. \<not> dotted_at ''report.xlsx'' j"
    by (simp add: dotted_at_def isdigit_def All_less_Suc numeral_eq_Suc)
  have h1: "\<forall>j. \<not> dotted_at ''report.xlsx'' j"
    by (intro allI no_dotted_bounded [OF _ b]) simp
  have c: "\<forall>i<3. ''report.xlsx'' ! i \<noteq> CHR ''W''"
    by (simp add: All_less_Suc numeral_eq_Suc)
  have h2: "\<forall>i k. \<not> we_at ''report.xlsx'' i k"
    by (intro allI no_we_bounded [OF _ c]) simp
  have h3: "valid_datetime ?now" by code_simp
  have h4: "7 < toordinal ?now" by code_simp
  have wd: "weekday ?now = 2" by code_simp
  have ev: "fromordinal (toordinal ?now - 3) = \<lparr>dt_year = 2024, dt_month = 5, dt_day = 12\<rparr>"
    by code_simp
  show ?thesis
    using h1 h2 h3 h4 C2_previous_sunday [OF h1 h2 h3 h4] by (simp add: Let_def wd ev)
qed

section \<open>Claims about \<open>find_excel_files\<close>\<close>

subsection \<open>Paths under a directory\<close>

lemma basename_append:
  assumes "CHR ''/'' \<notin> set b" and "x = [] \<or> last x = CHR ''/''"
  shows "os_path_basename (x @ b) = b"
proof -
  have tb: "takeWhile (\<lambda>c. c \<noteq> CHR ''/'') (rev b @ ys) = rev b @ takeWhile (\<lambda>c. c \<noteq> CHR ''/'') ys" for ys
    using assms(1) by (intro takeWhile_append2) auto
  have "takeWhile (\<lambda>c. c \<noteq> CHR ''/'') (rev x) = []"
  proof (cases "x = []")
    case True
    then show ?thesis by simp
  next
    case False
    then have "hd (rev x) = CHR ''/''" using assms(2) by (simp add: hd_rev)
    then show ?thesis using False by (cases "rev x") simp_all
  qed
  then show ?thesis by (simp add: os_path_basename_def tb)
qed











lemma find_excel_files_filter:
  assumes "find_excel_files env directory = Inr files"
  obtains p1 p2 where
    "glob_glob env (os_path_join directory ''*.xlsx'') = Inr p1"
    "glob_glob env (os_path_join directory ''*.xls'') = Inr p2"
    "files = filter (\<lambda>file_path. \<not> sublist ''modified_excel_workbooks'' file_path
                                \<and> \<not> sublist ''archived_data'' file_path) (p1 @ p2)"
  using assms by (auto simp: find_excel_files_def split: sum.splits)


subsection \<open>The excluded names\<close>

text \<open>
  C7: whatever the directory and whatever the file system lists, when
  \<open>find_excel_files\<close> returns, no path in the list it returns contains
  \<open>modified_excel_workbooks\<close> or \<open>archived_data\<close> as a substring.
\<close>

theorem C7_excluded_names:
  assumes "find_excel_files env directory = Inr files"
  shows "\<forall>file_path \<in> set files.
           \<not> sublist ''modified_excel_workbooks'' file_path \<and> \<not> sublist ''archived_data'' file_path"
proof
  fix file_path
  define keep where "keep = (\<lambda>file_path. \<not> sublist ''modified_excel_workbooks'' file_path
                                         \<and> \<not> sublist ''archived_data'' file_path)"
  from assms obtain p1 p2 where "files = filter keep (p1 @ p2)"
    unfolding keep_def by (rule find_excel_files_filter)
  moreover assume "file_path \<in> set files"
  ultimately have "keep file_path" by (simp only: set_filter mem_Collect_eq)
  then show "\<not> sublist ''modified_excel_workbooks'' file_path \<and> \<not> sublist ''archived_data'' file_path"
    unfolding keep_def .
qed

text \<open>
  A directory \<open>data\<close> that holds \<open>report.xlsx\<close>, \<open>my_archived_data.xlsx\<close> and \<open>old.xls\<close>:
  the file whose own name contains \<open>archived_data\<close> is left out.
\<close>

theorem C7_excluded_names_witness:
  "find_excel_files
     \<lparr>listdir = (\<lambda>d. if d = ''data'' then [''report.xlsx'', ''my_archived_data.xlsx'', ''old.xls''] else []),
      expand_dirs = (\<lambda>d. Inr [])\<rparr> ''data''
     = Inr [''data/report.xlsx'', ''data/old.xls'']
   \<and> \<not> sublist ''modified_excel_workbooks'' ''data/report.xlsx''
   \<and> \<not> sublist ''archived_data'' ''data/report.xlsx''
   \<and> sublist ''archived_data'' ''data/my_archived_data.xlsx''"
proof -
  let ?env = "\<lparr>listdir = (\<lambda>d. if d = ''data'' then [''report.xlsx'', ''my_archived_data.xlsx'', ''old.xls''] else []),
                expand_dirs = (\<lambda>d. Inr [])\<rparr>"
  have f: "find_excel_files ?env ''data'' = Inr [''data/report.xlsx'', ''data/old.xls'']"
    by code_simp
  have m: "''data/report.xlsx'' \<in> set [''data/report.xlsx'', ''data/old.xls'']" by simp
  from C7_excluded_names [OF f] m
  have k: "\<not> sublist ''modified_excel_workbooks'' ''data/report.xlsx'' \<and> \<not> sublist ''archived_data'' ''data/report.xlsx''"
    by (rule bspec)
  have s: "sublist ''archived_data'' ''data/my_archived_data.xlsx''" by code_simp
  from f k s show ?thesis by (intro conjI) (elim conjE, assumption)+
qed




section \<open>Claims about \<open>process_excel_file\<close>\<close>

subsection \<open>Components and keys\<close>

lemma components_nonempty: "components p \<noteq> []"
  by (induction p) (auto split: list.splits)

lemma components_no_sep: "CHR ''/'' \<notin> set p \<Longrightarrow> components p = [p]"
  by (induction p) auto

lemma components_length: "length (components p) = Suc (length (filter (\<lambda>c. c = CHR ''/'') p))"
  by (induction p) (auto split: list.splits)

lemma basename_no_sep_id: "CHR ''/'' \<notin> set p \<Longrightarrow> os_path_basename p = p"
proof -
  assume "CHR ''/'' \<notin> set p"
  then have "\<forall>x \<in> set (rev p). x \<noteq> CHR ''/''" by auto
  then have "takeWhile (\<lambda>c. c \<noteq> CHR ''/'') (rev p) = rev p"
    by (simp only: takeWhile_eq_all_conv)
  then show ?thesis by (simp only: os_path_basename_def rev_rev_ident)
qed

lemma basename_Cons:
  "os_path_basename (c # cs)
     = (if CHR ''/'' \<in> set cs then os_path_basename cs else if c = CHR ''/'' then cs else c # cs)"
proof (cases "CHR ''/'' \<in> set cs")
  case True
  then have "takeWhile (\<lambda>c. c \<noteq> CHR ''/'') (rev cs @ [c]) = takeWhile (\<lambda>c. c \<noteq> CHR ''/'') (rev cs)"
    by (intro takeWhile_append1 [of "CHR ''/''"]) simp_all
  then show ?thesis using True by (simp add: os_path_basename_def)
next
  case False
  then have "takeWhile (\<lambda>c. c \<noteq> CHR ''/'') (rev cs @ [c]) = rev cs @ takeWhile (\<lambda>c. c \<noteq> CHR ''/'') [c]"
    by (intro takeWhile_append2) auto
  then show ?thesis using False by (simp add: os_path_basename_def)
qed

lemma components_last: "last (components p) = os_path_basename p"
proof (induction p)
  case Nil
  show ?case by (simp add: os_path_basename_def)
next
  case (Cons c cs)
  show ?case
  proof (cases "CHR ''/'' \<in> set cs")
    case True
    then have "filter (\<lambda>c. c = CHR ''/'') cs \<noteq> []" by (simp add: filter_empty_conv)
    then have "2 \<le> length (components cs)" by (cases "filter (\<lambda>c. c = CHR ''/'') cs") (simp_all add: components_length)
    then obtain x y ys where e: "components cs = x # y # ys"
      by (cases "components cs"; cases "tl (components cs)") auto
    then have "last (components (c # cs)) = last (components cs)" by simp
    then show ?thesis using Cons.IH True by (simp add: basename_Cons)
  next
    case False
    then show ?thesis by (simp add: components_no_sep basename_Cons)
  qed
qed

lemma walk_append:
  "walk fs k (xs @ ys) = (case walk fs k xs of Inl e \<Rightarrow> Inl e | Inr k' \<Rightarrow> walk fs k' ys)"
  by (induction xs arbitrary: k) (auto split: option.splits node.splits)

lemma walk_last:
  assumes "walk fs k cs = Inr r" "cs \<noteq> []" "last cs \<noteq> []" "last cs \<noteq> ''.''" "last cs \<noteq> ''..''"
  shows "r \<noteq> [] \<and> last r = last cs"
proof -
  have cs: "cs = butlast cs @ [last cs]" using assms(2) by simp
  obtain k' where "walk fs k' [last cs] = Inr r"
    using assms(1) by (subst (asm) cs) (auto simp: walk_append split: sum.splits)
  then show ?thesis using assms(3-5) by (auto split: option.splits node.splits)
qed

lemma resolve_last:
  assumes "resolve fs p = Inr k"
    and "os_path_basename p \<noteq> []" "os_path_basename p \<noteq> ''.''" "os_path_basename p \<noteq> ''..''"
  shows "k \<noteq> [] \<and> last k = os_path_basename p"
proof (cases "hd p = CHR ''/''")
  case True
  from assms(1) have ne: "p \<noteq> []" by (auto simp: resolve_def split: if_splits)
  then have p: "p = CHR ''/'' # tl p" using True by (cases p) auto
  have b: "os_path_basename p = os_path_basename (tl p)"
    by (subst p) (simp add: basename_Cons basename_no_sep_id)
  have w: "walk fs [] (components (tl p)) = Inr k"
    using assms(1) True ne by (auto simp: resolve_def split: if_splits)
  show ?thesis
    using walk_last [OF w components_nonempty] assms(2-4) by (simp add: components_last b)
next
  case False
  then have w: "walk fs (cwd fs) (components p) = Inr k"
    using assms(1) by (auto simp: resolve_def split: if_splits)
  show ?thesis
    using walk_last [OF w components_nonempty] assms(2-4) by (simp add: components_last)
qed

subsection \<open>Resolution in a file system with more directories\<close>

lemma walk_mono:
  assumes "\<And>k. node_at fs k = Some Dir \<Longrightarrow> node_at fs' k = Some Dir"
    and "walk fs k cs = Inr r"
  shows "walk fs' k cs = Inr r"
  using assms(2)
proof (induction cs arbitrary: k)
  case Nil
  then show ?case by simp
next
  case (Cons c cs)
  from Cons.prems have d: "node_at fs k = Some Dir"
    by (auto split: option.splits node.splits)
  then have d': "node_at fs' k = Some Dir" by (rule assms(1))
  show ?case
  proof (cases "c = [] \<or> c = ''.''")
    case True
    then show ?thesis using Cons d d' by auto
  next
    case False
    show ?thesis
    proof (cases "c = ''..''")
      case True
      then have p: "node_at fs (butlast k) = Some Dir" and w: "walk fs (butlast k) cs = Inr r"
        using Cons.prems d by (auto split: if_splits)
      from p have "node_at fs' (butlast k) = Some Dir" by (rule assms(1))
      then show ?thesis using True d' Cons.IH [OF w] by simp
    next
      case False
      then show ?thesis using \<open>\<not> (c = [] \<or> c = ''.'')\<close> Cons d d' by auto
    qed
  qed
qed

lemma resolve_mono:
  assumes "cwd fs' = cwd fs" "\<And>k. node_at fs k = Some Dir \<Longrightarrow> node_at fs' k = Some Dir"
    and "resolve fs p = Inr k"
  shows "resolve fs' p = Inr k"
  using assms(3) walk_mono [of fs fs', OF assms(2)] assms(1)
  by (auto simp: resolve_def split: if_splits)

lemma adds_dirs_refl: "adds_dirs fs fs"
  by (simp add: adds_dirs_def)

lemma adds_dirs_trans: "adds_dirs fs fs1 \<Longrightarrow> adds_dirs fs1 fs2 \<Longrightarrow> adds_dirs fs fs2"
  unfolding adds_dirs_def by (metis option.distinct(1))

lemma adds_dirs_dir: "adds_dirs fs fs' \<Longrightarrow> node_at fs k = Some Dir \<Longrightarrow> node_at fs' k = Some Dir"
  unfolding adds_dirs_def node_at_def by (metis option.distinct(1))

lemma adds_dirs_file: "adds_dirs fs fs' \<Longrightarrow> nodes fs' k = Some (File c) \<longleftrightarrow> nodes fs k = Some (File c)"
  unfolding adds_dirs_def by (metis node.distinct(1) option.distinct(1) option.inject)

lemma adds_dirs_resolve:
  assumes "adds_dirs fs fs'" "resolve fs p = Inr k"
  shows "resolve fs' p = Inr k"
proof (rule resolve_mono [of fs' fs])
  show "cwd fs' = cwd fs" using assms(1) by (simp add: adds_dirs_def)
  show "node_at fs' k = Some Dir" if "node_at fs k = Some Dir" for k
    using assms(1) that by (rule adds_dirs_dir)
  show "resolve fs p = Inr k" by (rule assms(2))
qed

subsection \<open>Making directories\<close>

lemma os_mkdir_adds: "os_mkdir fs path = Inr fs' \<Longrightarrow> adds_dirs fs fs'"
  by (auto simp: os_mkdir_def adds_dirs_def node_at_def split: sum.splits option.splits if_splits)

lemma mkdir_exist_ok_adds: "mkdir_exist_ok fs name = (r, fs') \<Longrightarrow> adds_dirs fs fs'"
  by (auto simp: mkdir_exist_ok_def adds_dirs_refl os_mkdir_adds split: sum.splits if_splits)

lemma os_makedirs_adds: "os_makedirs fs name = (r, fs') \<Longrightarrow> adds_dirs fs fs'"
proof (induction fs name arbitrary: r fs' rule: os_makedirs.induct)
  case (1 fs name)
  let ?head = "fst (makedirs_head_tail name)"
  let ?tail = "snd (makedirs_head_tail name)"
  show ?case
  proof (cases "?head \<noteq> [] \<and> ?tail \<noteq> [] \<and> \<not> os_path_exists fs ?head")
    case True
    obtain r1 fs1 where rec: "os_makedirs fs ?head = (r1, fs1)" by (cases "os_makedirs fs ?head")
    have a1: "adds_dirs fs fs1" using True rec by (intro "1.IH") auto
    have "fs' = fs1 \<or> mkdir_exist_ok fs1 name = (r, fs')"
      using "1.prems" True rec
      by (subst (asm) os_makedirs.simps) (auto split: sum.splits if_splits)
    then show ?thesis using a1 by (auto dest: mkdir_exist_ok_adds adds_dirs_trans)
  next
    case False
    then have "mkdir_exist_ok fs name = (r, fs')"
      using "1.prems" by (subst (asm) os_makedirs.simps) auto
    then show ?thesis by (rule mkdir_exist_ok_adds)
  qed
qed

subsection \<open>The library calls on a workbook\<close>

lemma open_write_key:
  "open_write fs path = Inr k \<Longrightarrow> resolve fs path = Inr k \<and> node_at fs k \<noteq> Some Dir"
  by (auto simp: open_write_def split: if_splits sum.splits option.splits node.splits)

lemma workbook_save_result:
  assumes "workbook_save fs wb filename = (Inr (), fs')"
  shows "\<exists>k. resolve fs filename = Inr k \<and> node_at fs k \<noteq> Some Dir
             \<and> fs' = fs\<lparr>nodes := (nodes fs)(k \<mapsto> File (Workbook wb))\<rparr>"
proof -
  from assms obtain k where o: "open_write fs filename = Inr k"
    and f: "fs' = fs\<lparr>nodes := (nodes fs)(k \<mapsto> File (Workbook wb))\<rparr>"
    by (auto simp: workbook_save_def split: sum.splits if_splits)
  from open_write_key [OF o] f show ?thesis by blast
qed

lemma load_workbook_result:
  assumes "load_workbook fs filename = Inr wb"
  shows "(\<exists>k. resolve fs filename = Inr k \<and> k \<noteq> [] \<and> nodes fs k = Some (File (Workbook wb)))
         \<and> map lower_char (splitext_ext filename) \<in> set SUPPORTED_FORMATS"
proof -
  from assms have s: "map lower_char (splitext_ext filename) \<in> set SUPPORTED_FORMATS"
    by (auto simp: load_workbook_def Let_def split: if_splits)
  from assms s obtain k where o: "open_read fs filename = Inr (k, Workbook wb)"
    by (auto simp: load_workbook_def Let_def split: if_splits sum.splits content.splits)
  then have "resolve fs filename = Inr k \<and> node_at fs k = Some (File (Workbook wb))"
    by (auto simp: open_read_def split: sum.splits option.splits node.splits)
  then have "resolve fs filename = Inr k \<and> k \<noteq> [] \<and> nodes fs k = Some (File (Workbook wb))"
    by (auto simp: node_at_def split: if_splits)
  with s show ?thesis by blast
qed

lemma supported_basename:
  assumes "map lower_char (splitext_ext filename) \<in> set SUPPORTED_FORMATS"
  shows "os_path_basename filename \<noteq> [] \<and> os_path_basename filename \<noteq> ''.''
         \<and> os_path_basename filename \<noteq> ''..''"
proof -
  let ?b = "os_path_basename filename"
  from assms have "splitext_ext filename \<noteq> []" by (auto simp: SUPPORTED_FORMATS_def)
  then obtain n c where "c \<in> set (take n ?b)" "c \<noteq> CHR ''.''"
    by (auto simp: splitext_ext_def Let_def split: if_splits)
  then have "c \<in> set ?b" "c \<noteq> CHR ''.''" by (auto dest: in_set_takeD)
  then show ?thesis by auto
qed

lemma unhide_all_sheets_result:
  assumes "unhide_all_sheets fs excel_path (Some output_path) = (Inr (), fs')" "output_path \<noteq> []"
  shows "\<exists>ks ko wb. resolve fs excel_path = Inr ks \<and> ks \<noteq> [] \<and> last ks = os_path_basename excel_path
           \<and> nodes fs ks = Some (File (Workbook wb))
           \<and> resolve fs output_path = Inr ko \<and> node_at fs ko \<noteq> Some Dir
           \<and> fs' = fs\<lparr>nodes := (nodes fs)(ko \<mapsto> File (Workbook (map (\<lambda>sheet. sheet\<lparr>sheet_state := visible\<rparr>) wb)))\<rparr>"
proof -
  from assms(1) obtain wb where l: "load_workbook fs excel_path = Inr wb"
    by (auto simp: unhide_all_sheets_def split: sum.splits)
  from load_workbook_result [OF l] obtain ks where
    ks: "resolve fs excel_path = Inr ks" "ks \<noteq> []" "nodes fs ks = Some (File (Workbook wb))"
    and s: "map lower_char (splitext_ext excel_path) \<in> set SUPPORTED_FORMATS"
    by blast
  have la: "last ks = os_path_basename excel_path"
    using resolve_last [OF ks(1)] supported_basename [OF s] by simp
  have "workbook_save fs (map (\<lambda>sheet. sheet\<lparr>sheet_state := visible\<rparr>) wb) output_path = (Inr (), fs')"
    using assms l by (simp add: unhide_all_sheets_def truthy_def)
  from workbook_save_result [OF this] ks la show ?thesis by blast
qed

lemma rename_or_copy_result:
  assumes "rename_or_copy fs src dst = Inr fs'" "\<not> os_path_isdir fs dst"
  shows "\<exists>ks kd c. resolve fs src = Inr ks \<and> ks \<noteq> [] \<and> nodes fs ks = Some (File c)
           \<and> resolve fs dst = Inr kd \<and> node_at fs kd \<noteq> Some Dir
           \<and> fs' = (if ks = kd then fs else fs\<lparr>nodes := ((nodes fs)(ks := None))(kd \<mapsto> File c)\<rparr>)"
proof -
  from assms obtain ks c where r: "open_read fs src = Inr (ks, c)"
    by (auto simp: rename_or_copy_def split: if_splits sum.splits)
  then have "resolve fs src = Inr ks \<and> node_at fs ks = Some (File c)"
    by (auto simp: open_read_def split: sum.splits option.splits node.splits)
  then have s: "resolve fs src = Inr ks" "ks \<noteq> []" "nodes fs ks = Some (File c)"
    by (auto simp: node_at_def split: if_splits)
  from assms r obtain kd where w: "open_write fs dst = Inr kd"
    and f: "fs' = (if ks = kd then fs else fs\<lparr>nodes := ((nodes fs)(ks := None))(kd \<mapsto> File c)\<rparr>)"
    by (auto simp: rename_or_copy_def split: if_splits sum.splits)
  from open_write_key [OF w] s f show ?thesis by blast
qed

lemma shutil_move_file:
  assumes "shutil_move fs src dst = Inr fs'"
    and "resolve fs src = Inr ks" "ks \<noteq> []" "nodes fs ks = Some (File c)"
  shows "if os_path_isdir fs dst
         then \<exists>kr. resolve fs (os_path_join dst (shutil_basename src)) = Inr kr \<and> node_at fs kr = None
                 \<and> fs' = fs\<lparr>nodes := ((nodes fs)(ks := None))(kr \<mapsto> File c)\<rparr>
         else \<exists>kd. resolve fs dst = Inr kd \<and> node_at fs kd \<noteq> Some Dir
                 \<and> fs' = (if ks = kd then fs else fs\<lparr>nodes := ((nodes fs)(ks := None))(kd \<mapsto> File c)\<rparr>)"
proof (cases "os_path_isdir fs dst")
  case True
  let ?real = "os_path_join dst (shutil_basename src)"
  have n: "node_at fs ks = Some (File c)" using assms(3,4) by (simp add: node_at_def)
  from True obtain ka where ka: "resolve fs dst = Inr ka" "node_at fs ka = Some Dir"
    by (auto simp: os_path_isdir_def lookup_def split: sum.splits option.splits)
  have "ka \<noteq> ks" using ka(2) n by auto
  then have ns: "\<not> os_path_samefile fs src dst"
    using ka(1) assms(2) by (simp add: os_path_samefile_def)
  from assms(1) True ns have ne: "\<not> os_path_exists fs ?real" and r: "rename_or_copy fs src ?real = Inr fs'"
    by (auto simp: shutil_move_def Let_def split: if_splits)
  from ne have nd: "\<not> os_path_isdir fs ?real"
    by (auto simp: os_path_exists_def os_path_isdir_def)
  from rename_or_copy_result [OF r nd] assms(2,4) obtain kr where
    kr: "resolve fs ?real = Inr kr"
    and f: "fs' = (if ks = kr then fs else fs\<lparr>nodes := ((nodes fs)(ks := None))(kr \<mapsto> File c)\<rparr>)"
    by auto
  from ne kr(1) have nn: "node_at fs kr = None"
    by (auto simp: os_path_exists_def lookup_def split: option.splits)
  then have "ks \<noteq> kr" using n by auto
  then show ?thesis using True kr nn f by simp
next
  case False
  then have r: "rename_or_copy fs src dst = Inr fs'" using assms(1) by (simp add: shutil_move_def)
  from rename_or_copy_result [OF r False] assms(2,4) False show ?thesis by auto
qed

subsection \<open>The names built\<close>

lemma digit_char_not_sep: "d < 10 \<Longrightarrow> digit_char d \<noteq> CHR ''/''"
proof
  assume d: "d < 10" and "digit_char d = CHR ''/''"
  then have "(of_char (char_of (48 + d) :: char) :: nat) = of_char CHR ''/''"
    by (simp add: digit_char_def)
  then show False using d by simp
qed

lemma str_nat_no_sep: "CHR ''/'' \<notin> set (str_nat n)"
proof (induction n rule: str_nat.induct)
  case (1 n)
  show ?case
  proof (cases "n < 10")
    case True
    then show ?thesis using digit_char_not_sep [of n] by (simp add: str_nat.simps [of n])
  next
    case False
    have "n mod 10 < 10" by simp
    then have "digit_char (n mod 10) \<noteq> CHR ''/''" by (rule digit_char_not_sep)
    then show ?thesis using False "1.IH" by (simp add: str_nat.simps [of n])
  qed
qed

lemma format_date_no_sep: "CHR ''/'' \<notin> set (format_date date_tuple)"
  by (cases date_tuple) (auto simp: format_date_def format_0wd_def str_int_def Let_def str_nat_no_sep)

lemma basename_no_sep: "CHR ''/'' \<notin> set (os_path_basename p)"
proof -
  have "CHR ''/'' \<notin> set (takeWhile (\<lambda>c. c \<noteq> CHR ''/'') (rev p))"
    by (auto dest: set_takeWhileD)
  then show ?thesis by (simp add: os_path_basename_def)
qed

lemma join_basename:
  assumes "CHR ''/'' \<notin> set b"
  shows "os_path_basename (os_path_join a b) = b"
proof -
  have h: "b = [] \<or> hd b \<noteq> CHR ''/''" using assms by (cases b) auto
  show ?thesis
  proof (cases "a = [] \<or> last a = CHR ''/''")
    case True
    then have "os_path_join a b = a @ b" using h by (auto simp: os_path_join_def)
    then show ?thesis using assms True by (simp add: basename_append)
  next
    case False
    then have j: "os_path_join a b = (a @ ''/'') @ b" using h by (auto simp: os_path_join_def)
    have "os_path_basename ((a @ ''/'') @ b) = b"
      using assms by (intro basename_append) simp_all
    then show ?thesis unfolding j .
  qed
qed

lemma output_basename:
  "os_path_basename (os_path_join output_dir (format_date date_tuple @ ''_'' @ os_path_basename excel_path))
     = format_date date_tuple @ ''_'' @ os_path_basename excel_path"
  by (rule join_basename) (simp add: format_date_no_sep basename_no_sep)

lemma join_nonempty: "b \<noteq> [] \<Longrightarrow> os_path_join a b \<noteq> []"
  by (auto simp: os_path_join_def)

lemma output_key_differs:
  assumes "resolve fs (os_path_join output_dir (format_date date_tuple @ ''_'' @ os_path_basename excel_path)) = Inr ko"
    and "last ks = os_path_basename excel_path"
  shows "ko \<noteq> ks"
proof
  let ?nf = "format_date date_tuple @ ''_'' @ os_path_basename excel_path"
  assume e: "ko = ks"
  have u: "CHR ''_'' \<in> set ?nf" by simp
  have "?nf \<noteq> [] \<and> ?nf \<noteq> ''.'' \<and> ?nf \<noteq> ''..''"
  proof (intro conjI notI)
    assume "?nf = []" then show False by simp
  next
    assume "?nf = ''.''" with u show False by (simp only: set_simps) simp
  next
    assume "?nf = ''..''" with u show False by (simp only: set_simps) simp
  qed
  then have "last ko = ?nf"
    using resolve_last [OF assms(1)] by (simp only: output_basename) simp
  then have "length (os_path_basename excel_path) = length ?nf" using e assms(2) by simp
  then show False by simp
qed

subsection \<open>One workbook\<close>

lemma process_excel_file_steps:
  assumes "process_excel_file now fs excel_path output_dir archive_dir = (Inr output_path, fs')"
  obtains date_tuple fs1 fs2 fs3 where
    "extract_date_from_filename now (os_path_basename excel_path) = Inr date_tuple"
    "output_path = os_path_join output_dir (format_date date_tuple @ ''_'' @ os_path_basename excel_path)"
    "os_makedirs fs output_dir = (Inr (), fs1)"
    "os_makedirs fs1 archive_dir = (Inr (), fs2)"
    "unhide_all_sheets fs2 excel_path (Some output_path) = (Inr (), fs3)"
    "shutil_move fs3 excel_path (os_path_join archive_dir (os_path_basename excel_path)) = Inr fs'"
  using assms
  by (auto simp: process_excel_file_def create_new_filename_def get_output_path_def
        get_archive_path_def Let_def split: sum.splits prod.splits)

lemma Inr_collapse_pair: "\<not> isl x \<Longrightarrow> x = Inr (fst (projr x), snd (projr x))"
  by (cases x) auto

lemma saved_state:
  assumes m1: "os_makedirs fs output_dir = (r1, fs1)"
    and m2: "os_makedirs fs1 archive_dir = (r2, fs2)"
    and u: "unhide_all_sheets fs2 excel_path (Some output_path) = (Inr (), fs3)"
    and o: "output_path = os_path_join output_dir (format_date date_tuple @ ''_'' @ os_path_basename excel_path)"
  obtains ks ko wb where
    "resolve fs3 excel_path = Inr ks" "ks \<noteq> []"
    "nodes fs ks = Some (File (Workbook wb))" "nodes fs3 ks = Some (File (Workbook wb))"
    "\<forall>n. lookup fs excel_path = Inr n \<longrightarrow> n = File (Workbook wb)"
    "lookup fs3 excel_path = Inr (File (Workbook wb))"
    "lookup fs3 output_path = Inr (File (Workbook (map (\<lambda>sheet. sheet\<lparr>sheet_state := visible\<rparr>) wb)))"
proof -
  have one_ne: "output_path \<noteq> []" unfolding o by (rule join_nonempty) simp
  from unhide_all_sheets_result [OF u one_ne] obtain ks ko wb where
    ks: "resolve fs2 excel_path = Inr ks" "ks \<noteq> []" "last ks = os_path_basename excel_path"
      "nodes fs2 ks = Some (File (Workbook wb))"
    and ko: "resolve fs2 output_path = Inr ko" "node_at fs2 ko \<noteq> Some Dir"
    and f3: "fs3 = fs2\<lparr>nodes := (nodes fs2)(ko \<mapsto> File (Workbook (map (\<lambda>sheet. sheet\<lparr>sheet_state := visible\<rparr>) wb)))\<rparr>"
    by blast
  have a: "adds_dirs fs fs2"
    using os_makedirs_adds [OF m1] os_makedirs_adds [OF m2] by (rule adds_dirs_trans)
  have d: "ko \<noteq> ks" using ko(1) ks(3) unfolding o by (rule output_key_differs)
  have kone: "ko \<noteq> []" using ko(2) by (auto simp: node_at_def)
  have c3: "cwd fs3 = cwd fs2" by (simp add: f3)
  have d3: "node_at fs3 k = Some Dir" if "node_at fs2 k = Some Dir" for k
    using that ko(2) by (auto simp: f3 node_at_def)
  have r3: "resolve fs3 p = Inr k" if "resolve fs2 p = Inr k" for p k
    using c3 d3 that by (rule resolve_mono)
  have n0: "nodes fs ks = Some (File (Workbook wb))" using adds_dirs_file [OF a] ks(4) by simp
  have n3: "nodes fs3 ks = Some (File (Workbook wb))" using ks(4) d by (simp add: f3)
  have l0: "n = File (Workbook wb)" if "lookup fs excel_path = Inr n" for n
  proof -
    from that obtain k0 where k0: "resolve fs excel_path = Inr k0" "node_at fs k0 = Some n"
      by (auto simp: lookup_def split: sum.splits option.splits)
    from adds_dirs_resolve [OF a k0(1)] ks(1) have "k0 = ks" by simp
    then show ?thesis using k0(2) ks(2) n0 by (simp add: node_at_def)
  qed
  have l3: "lookup fs3 excel_path = Inr (File (Workbook wb))"
    using r3 [OF ks(1)] n3 ks(2) by (simp add: lookup_def node_at_def)
  have l4: "lookup fs3 output_path = Inr (File (Workbook (map (\<lambda>sheet. sheet\<lparr>sheet_state := visible\<rparr>) wb)))"
    using r3 [OF ko(1)] kone by (simp add: lookup_def node_at_def f3)
  show ?thesis using r3 [OF ks(1)] ks(2) n0 n3 l0 l3 l4 by (intro that) auto
qed

lemma pair_Inr: "\<not> isl (fst x) \<Longrightarrow> x = (Inr (projr (fst x)), snd x)"
  by (cases x; cases "fst x") auto

subsection \<open>The result of a call that returns\<close>

text \<open>
  C3, as stated, fails in two situations in which the call returns. First, the source
  \<open>data/x.xlsx\<close> with the archive directory \<open>./data\<close>: the archive path
  \<open>./data/x.xlsx\<close> names the source file itself, the move renames the file onto itself,
  and the file is still at the source path afterwards. Second, the source
  \<open>in/test.xlsx\<close> when \<open>archived_data/test.xlsx\<close> is a directory: the file is moved into
  that directory, and the archive path still names the directory, not the file.
\<close>

theorem C3_process_counterexample:
  "os_path_join ''./data'' (os_path_basename ''data/x.xlsx'') = ''./data/x.xlsx''
   \<and> fst (process_excel_file \<lparr>dt_year = 2024, dt_month = 5, dt_day = 15\<rparr>
          \<lparr>cwd = [''home''],
           nodes = [[''home''] \<mapsto> Dir, [''home'', ''data''] \<mapsto> Dir,
                    [''home'', ''data'', ''x.xlsx'']
                      \<mapsto> File (Workbook [\<lparr>title = ''Data'', sheet_state = hidden\<rparr>])]\<rparr>
          ''data/x.xlsx'' ''modified_excel_workbooks'' ''./data'')
     = Inr ''modified_excel_workbooks/05-12-2024_x.xlsx''
   \<and> lookup (snd (process_excel_file \<lparr>dt_year = 2024, dt_month = 5, dt_day = 15\<rparr>
          \<lparr>cwd = [''home''],
           nodes = [[''home''] \<mapsto> Dir, [''home'', ''data''] \<mapsto> Dir,
                    [''home'', ''data'', ''x.xlsx'']
                      \<mapsto> File (Workbook [\<lparr>title = ''Data'', sheet_state = hidden\<rparr>])]\<rparr>
          ''data/x.xlsx'' ''modified_excel_workbooks'' ''./data''))
         ''data/x.xlsx''
     = Inr (File (Workbook [\<lparr>title = ''Data'', sheet_state = hidden\<rparr>]))
   \<and> fst (process_excel_file \<lparr>dt_year = 2024, dt_month = 5, dt_day = 15\<rparr>
          \<lparr>cwd = [''home''],
           nodes = [[''home''] \<mapsto> Dir, [''home'', ''in''] \<mapsto> Dir, [''home'', ''archived_data''] \<mapsto> Dir,
                    [''home'', ''in'', ''test.xlsx'']
                      \<mapsto> File (Workbook [\<lparr>title = ''Data'', sheet_state = hidden\<rparr>]),
                    [''home'', ''archived_data'', ''test.xlsx''] \<mapsto> Dir]\<rparr>
          ''in/test.xlsx'' ''modified_excel_workbooks'' ''archived_data'')
     = Inr ''modified_excel_workbooks/05-12-2024_test.xlsx''
   \<and> lookup (snd (process_excel_file \<lparr>dt_year = 2024, dt_month = 5, dt_day = 15\<rparr>
          \<lparr>cwd = [''home''],
           nodes = [[''home''] \<mapsto> Dir, [''home'', ''in''] \<mapsto> Dir, [''home'', ''archived_data''] \<mapsto> Dir,
                    [''home'', ''in'', ''test.xlsx'']
                      \<mapsto> File (Workbook [\<lparr>title = ''Data'', sheet_state = hidden\<rparr>]),
                    [''home'', ''archived_data'', ''test.xlsx''] \<mapsto> Dir]\<rparr>
          ''in/test.xlsx'' ''modified_excel_workbooks'' ''archived_data''))
         ''archived_data/test.xlsx''
     = Inr Dir"
  by code_simp

text \<open>
  C3, amended: when \<open>process_excel_file\<close> returns, it returns the output directory
  joined with the formatted date, an underscore and the base name of the source; and
  if, in the file system after the call, the archive path (the archive directory
  joined with that base name) does not resolve to the same entry as the source path
  and is not a directory, then the workbook that was at the entry of the source path
  before the call, unchanged, is at the archive path, and nothing is at the source
  path. (If the source path named something before the call, it named that
  workbook.)
\<close>

theorem C3_process_result:
  assumes "process_excel_file now fs excel_path output_dir archive_dir = (Inr output_path, fs')"
  shows "(\<exists>date_tuple.
            extract_date_from_filename now (os_path_basename excel_path) = Inr date_tuple
            \<and> output_path = os_path_join output_dir
                               (format_date date_tuple @ ''_'' @ os_path_basename excel_path))
         \<and> (let archive_path = os_path_join archive_dir (os_path_basename excel_path)
            in resolve fs' archive_path \<noteq> resolve fs' excel_path \<and> \<not> os_path_isdir fs' archive_path \<longrightarrow>
                 (\<exists>k wb. resolve fs' excel_path = Inr k
                        \<and> nodes fs k = Some (File (Workbook wb))
                        \<and> (\<forall>n. lookup fs excel_path = Inr n \<longrightarrow> n = File (Workbook wb))
                        \<and> lookup fs' archive_path = Inr (File (Workbook wb)))
                 \<and> \<not> os_path_exists fs' excel_path)"
proof -
  let ?archive = "os_path_join archive_dir (os_path_basename excel_path)"
  from assms obtain date_tuple fs1 fs2 fs3 where
    d: "extract_date_from_filename now (os_path_basename excel_path) = Inr date_tuple"
    and o: "output_path = os_path_join output_dir (format_date date_tuple @ ''_'' @ os_path_basename excel_path)"
    and m1: "os_makedirs fs output_dir = (Inr (), fs1)"
    and m2: "os_makedirs fs1 archive_dir = (Inr (), fs2)"
    and u: "unhide_all_sheets fs2 excel_path (Some output_path) = (Inr (), fs3)"
    and mv: "shutil_move fs3 excel_path ?archive = Inr fs'"
    by (rule process_excel_file_steps)
  from m1 m2 u o obtain ks wb where
    ks: "resolve fs3 excel_path = Inr ks" "ks \<noteq> []"
    and n0: "nodes fs ks = Some (File (Workbook wb))"
    and n3: "nodes fs3 ks = Some (File (Workbook wb))"
    and l0: "\<forall>n. lookup fs excel_path = Inr n \<longrightarrow> n = File (Workbook wb)"
    by (rule saved_state)
  have na3: "node_at fs3 ks = Some (File (Workbook wb))" using n3 ks(2) by (simp add: node_at_def)
  have moved: "(\<exists>k wb. resolve fs' excel_path = Inr k
                        \<and> nodes fs k = Some (File (Workbook wb))
                        \<and> (\<forall>n. lookup fs excel_path = Inr n \<longrightarrow> n = File (Workbook wb))
                        \<and> lookup fs' ?archive = Inr (File (Workbook wb)))
                 \<and> \<not> os_path_exists fs' excel_path"
    if ne: "resolve fs' ?archive \<noteq> resolve fs' excel_path" and nd: "\<not> os_path_isdir fs' ?archive"
  proof (cases "os_path_isdir fs3 ?archive")
    case True
    from shutil_move_file [OF mv ks n3] True obtain kr where
      kr: "node_at fs3 kr = None"
      and f': "fs' = fs3\<lparr>nodes := ((nodes fs3)(ks := None))(kr \<mapsto> File (Workbook wb))\<rparr>"
      by auto
    from True obtain ka where ka: "resolve fs3 ?archive = Inr ka" "node_at fs3 ka = Some Dir"
      by (auto simp: os_path_isdir_def lookup_def split: sum.splits option.splits)
    have c: "cwd fs' = cwd fs3" by (simp add: f')
    have dd: "node_at fs' k = Some Dir" if "node_at fs3 k = Some Dir" for k
      using that kr na3 by (auto simp: f' node_at_def)
    have "resolve fs' ?archive = Inr ka" using c dd ka(1) by (rule resolve_mono)
    moreover have "node_at fs' ka = Some Dir" using ka(2) by (rule dd)
    ultimately have "os_path_isdir fs' ?archive" by (simp add: os_path_isdir_def lookup_def)
    with nd show ?thesis by simp
  next
    case False
    from shutil_move_file [OF mv ks n3] False obtain kd where
      kd: "resolve fs3 ?archive = Inr kd" "node_at fs3 kd \<noteq> Some Dir"
      and f': "fs' = (if ks = kd then fs3 else fs3\<lparr>nodes := ((nodes fs3)(ks := None))(kd \<mapsto> File (Workbook wb))\<rparr>)"
      by auto
    have c: "cwd fs' = cwd fs3" by (simp add: f')
    have dd: "node_at fs' k = Some Dir" if "node_at fs3 k = Some Dir" for k
      using that kd(2) na3 by (auto simp: f' node_at_def)
    have ra: "resolve fs' ?archive = Inr kd" using c dd kd(1) by (rule resolve_mono)
    have re: "resolve fs' excel_path = Inr ks" using c dd ks(1) by (rule resolve_mono)
    have diff: "ks \<noteq> kd" using ne ra re by auto
    have kdne: "kd \<noteq> []" using kd(2) by (auto simp: node_at_def)
    have la: "lookup fs' ?archive = Inr (File (Workbook wb))"
      using ra diff kdne by (simp add: lookup_def node_at_def f')
    have "node_at fs' ks = None" using diff ks(2) by (simp add: f' node_at_def)
    then have "\<not> os_path_exists fs' excel_path" using re by (simp add: os_path_exists_def lookup_def)
    then show ?thesis using re n0 l0 la by blast
  qed
  show ?thesis
    using d o moved by (auto simp: Let_def)
qed

text \<open>
  The source \<open>in/test.xlsx\<close> on 15 May 2024: the call returns
  \<open>modified_excel_workbooks/05-12-2024_test.xlsx\<close>, the workbook with its hidden sheet is
  at \<open>archived_data/test.xlsx\<close> and nothing is at the source path.
\<close>

theorem C3_process_result_witness:
  "process_excel_file \<lparr>dt_year = 2024, dt_month = 5, dt_day = 15\<rparr>
       \<lparr>cwd = [''home''],
        nodes = [[''home''] \<mapsto> Dir, [''home'', ''in''] \<mapsto> Dir,
                 [''home'', ''in'', ''test.xlsx'']
                   \<mapsto> File (Workbook [\<lparr>title = ''Data'', sheet_state = hidden\<rparr>])]\<rparr>
       ''in/test.xlsx'' ''modified_excel_workbooks'' ''archived_data''
     = (Inr ''modified_excel_workbooks/05-12-2024_test.xlsx'',
        snd (process_excel_file \<lparr>dt_year = 2024, dt_month = 5, dt_day = 15\<rparr>
               \<lparr>cwd = [''home''],
                nodes = [[''home''] \<mapsto> Dir, [''home'', ''in''] \<mapsto> Dir,
                         [''home'', ''in'', ''test.xlsx'']
                           \<mapsto> File (Workbook [\<lparr>title = ''Data'', sheet_state = hidden\<rparr>])]\<rparr>
               ''in/test.xlsx'' ''modified_excel_workbooks'' ''archived_data''))
   \<and> lookup (snd (process_excel_file \<lparr>dt_year = 2024, dt_month = 5, dt_day = 15\<rparr>
               \<lparr>cwd = [''home''],
                nodes = [[''home''] \<mapsto> Dir, [''home'', ''in''] \<mapsto> Dir,
                         [''home'', ''in'', ''test.xlsx'']
                           \<mapsto> File (Workbook [\<lparr>title = ''Data'', sheet_state = hidden\<rparr>])]\<rparr>
               ''in/test.xlsx'' ''modified_excel_workbooks'' ''archived_data''))
         ''archived_data/test.xlsx''
       = Inr (File (Workbook [\<lparr>title = ''Data'', sheet_state = hidden\<rparr>]))
   \<and> \<not> os_path_exists (snd (process_excel_file \<lparr>dt_year = 2024, dt_month = 5, dt_day = 15\<rparr>
               \<lparr>cwd = [''home''],
                nodes = [[''home''] \<mapsto> Dir, [''home'', ''in''] \<mapsto> Dir,
                         [''home'', ''in'', ''test.xlsx'']
                           \<mapsto> File (Workbook [\<lparr>title = ''Data'', sheet_state = hidden\<rparr>])]\<rparr>
               ''in/test.xlsx'' ''modified_excel_workbooks'' ''archived_data''))
         ''in/test.xlsx''"
proof -
  let ?now = "\<lparr>dt_year = 2024, dt_month = 5, dt_day = 15\<rparr>"
  let ?fs = "\<lparr>cwd = [''home''],
              nodes = [[''home''] \<mapsto> Dir, [''home'', ''in''] \<mapsto> Dir,
                       [''home'', ''in'', ''test.xlsx'']
                         \<mapsto> File (Workbook [\<lparr>title = ''Data'', sheet_state = hidden\<rparr>])]\<rparr>"
  let ?run = "process_excel_file ?now ?fs ''in/test.xlsx'' ''modified_excel_workbooks'' ''archived_data''"
  have r: "fst ?run = Inr ''modified_excel_workbooks/05-12-2024_test.xlsx''" by code_simp
  have h: "?run = (Inr ''modified_excel_workbooks/05-12-2024_test.xlsx'', snd ?run)"
    by (rule prod_eqI) (simp_all add: r)
  have a: "os_path_join ''archived_data'' (os_path_basename ''in/test.xlsx'') = ''archived_data/test.xlsx''"
    by code_simp
  have ne: "resolve (snd ?run) ''archived_data/test.xlsx'' \<noteq> resolve (snd ?run) ''in/test.xlsx''"
    by code_simp
  have nd: "\<not> os_path_isdir (snd ?run) ''archived_data/test.xlsx''" by code_simp
  have f: "lookup ?fs ''in/test.xlsx'' = Inr (File (Workbook [\<lparr>title = ''Data'', sheet_state = hidden\<rparr>]))"
    by code_simp
  from C3_process_result [OF h] a nd ne
  have "(\<exists>k wb. resolve (snd ?run) ''in/test.xlsx'' = Inr k
             \<and> nodes ?fs k = Some (File (Workbook wb))
             \<and> (\<forall>n. lookup ?fs ''in/test.xlsx'' = Inr n \<longrightarrow> n = File (Workbook wb))
             \<and> lookup (snd ?run) ''archived_data/test.xlsx'' = Inr (File (Workbook wb)))
        \<and> \<not> os_path_exists (snd ?run) ''in/test.xlsx''"
    by (simp only: Let_def) blast
  then have "lookup (snd ?run) ''archived_data/test.xlsx''
               = Inr (File (Workbook [\<lparr>title = ''Data'', sheet_state = hidden\<rparr>]))
             \<and> \<not> os_path_exists (snd ?run) ''in/test.xlsx''"
    using f by (elim conjE exE) (simp only: node.inject content.inject sum.inject, blast)
  then show ?thesis using h by (intro conjI) (elim conjE, assumption)+
qed

subsection \<open>A move that raises\<close>

text \<open>
  C10: when the file names are built, both directories are made and the transformed
  workbook is saved, and the move then raises, \<open>process_excel_file\<close> raises that
  exception and leaves the file system as it was after the save: the source is still
  at its path with its content untouched (the workbook that was at its entry before
  the call), and the output path holds the workbook with every sheet visible. If
  nothing was at the output path before, the file system has changed although the
  call failed.
\<close>

theorem C10_save_before_move:
  assumes "create_new_filename now (os_path_basename excel_path) = Inr new_filename"
    and "get_output_path fs new_filename output_dir = (Inr output_path, fs1)"
    and "get_archive_path fs1 (os_path_basename excel_path) archive_dir = (Inr archive_path, fs2)"
    and "unhide_all_sheets fs2 excel_path (Some output_path) = (Inr (), fs3)"
    and "shutil_move fs3 excel_path archive_path = Inl e"
  shows "process_excel_file now fs excel_path output_dir archive_dir = (Inl e, fs3)
         \<and> (\<exists>wb. (\<exists>k. resolve fs3 excel_path = Inr k \<and> nodes fs k = Some (File (Workbook wb)))
                \<and> (\<forall>n. lookup fs excel_path = Inr n \<longrightarrow> n = File (Workbook wb))
                \<and> lookup fs3 excel_path = Inr (File (Workbook wb))
                \<and> lookup fs3 output_path
                    = Inr (File (Workbook (map (\<lambda>sheet. sheet\<lparr>sheet_state := visible\<rparr>) wb))))
         \<and> (\<not> os_path_exists fs output_path \<longrightarrow> fs3 \<noteq> fs)"
proof -
  have run: "process_excel_file now fs excel_path output_dir archive_dir = (Inl e, fs3)"
    using assms by (simp add: process_excel_file_def Let_def)
  from assms(1) obtain date_tuple where
    nf: "new_filename = format_date date_tuple @ ''_'' @ os_path_basename excel_path"
    by (auto simp: create_new_filename_def split: sum.splits)
  from assms(2) have m1: "os_makedirs fs output_dir = (Inr (), fs1)"
    and o: "output_path = os_path_join output_dir new_filename"
    by (auto simp: get_output_path_def split: sum.splits prod.splits)
  from assms(3) have m2: "os_makedirs fs1 archive_dir = (Inr (), fs2)"
    by (auto simp: get_archive_path_def split: sum.splits prod.splits)
  from m1 m2 assms(4) o [unfolded nf] obtain ks wb where
    ks: "resolve fs3 excel_path = Inr ks"
    and n0: "nodes fs ks = Some (File (Workbook wb))"
    and l0: "\<forall>n. lookup fs excel_path = Inr n \<longrightarrow> n = File (Workbook wb)"
    and l3: "lookup fs3 excel_path = Inr (File (Workbook wb))"
    and l4: "lookup fs3 output_path = Inr (File (Workbook (map (\<lambda>sheet. sheet\<lparr>sheet_state := visible\<rparr>) wb)))"
    by (rule saved_state)
  have "fs3 \<noteq> fs" if "\<not> os_path_exists fs output_path"
  proof
    assume "fs3 = fs"
    then have "os_path_exists fs output_path" using l4 by (simp add: os_path_exists_def)
    with that show False by simp
  qed
  then show ?thesis using run ks n0 l0 l3 l4 by blast
qed

text \<open>
  The archive directory holds a directory \<open>test.xlsx\<close> with an entry \<open>test.xlsx\<close> in
  it, so the move of \<open>in/test.xlsx\<close> is refused; the output file has been written and
  the source is where it was.
\<close>

theorem C10_save_before_move_witness:
  "fst (process_excel_file \<lparr>dt_year = 2024, dt_month = 5, dt_day = 15\<rparr>
          \<lparr>cwd = [''home''],
           nodes = [[''home''] \<mapsto> Dir, [''home'', ''in''] \<mapsto> Dir, [''home'', ''archived_data''] \<mapsto> Dir,
                    [''home'', ''in'', ''test.xlsx'']
                      \<mapsto> File (Workbook [\<lparr>title = ''Data'', sheet_state = hidden\<rparr>]),
                    [''home'', ''archived_data'', ''test.xlsx''] \<mapsto> Dir,
                    [''home'', ''archived_data'', ''test.xlsx'', ''test.xlsx''] \<mapsto> File Other]\<rparr>
          ''in/test.xlsx'' ''modified_excel_workbooks'' ''archived_data'')
     = Inl (Exn ShutilError
             (''Destination path '' @ quoted ''archived_data/test.xlsx/test.xlsx'' @ '' already exists''))
   \<and> \<not> os_path_exists
          \<lparr>cwd = [''home''],
           nodes = [[''home''] \<mapsto> Dir, [''home'', ''in''] \<mapsto> Dir, [''home'', ''archived_data''] \<mapsto> Dir,
                    [''home'', ''in'', ''test.xlsx'']
                      \<mapsto> File (Workbook [\<lparr>title = ''Data'', sheet_state = hidden\<rparr>]),
                    [''home'', ''archived_data'', ''test.xlsx''] \<mapsto> Dir,
                    [''home'', ''archived_data'', ''test.xlsx'', ''test.xlsx''] \<mapsto> File Other]\<rparr>
          ''modified_excel_workbooks/05-12-2024_test.xlsx''
   \<and> lookup (snd (process_excel_file \<lparr>dt_year = 2024, dt_month = 5, dt_day = 15\<rparr>
          \<lparr>cwd = [''home''],
           nodes = [[''home''] \<mapsto> Dir, [''home'', ''in''] \<mapsto> Dir, [''home'', ''archived_data''] \<mapsto> Dir,
                    [''home'', ''in'', ''test.xlsx'']
                      \<mapsto> File (Workbook [\<lparr>title = ''Data'', sheet_state = hidden\<rparr>]),
                    [''home'', ''archived_data'', ''test.xlsx''] \<mapsto> Dir,
                    [''home'', ''archived_data'', ''test.xlsx'', ''test.xlsx''] \<mapsto> File Other]\<rparr>
          ''in/test.xlsx'' ''modified_excel_workbooks'' ''archived_data''))
         ''modified_excel_workbooks/05-12-2024_test.xlsx''
     = Inr (File (Workbook [\<lparr>title = ''Data'', sheet_state = visible\<rparr>]))
   \<and> lookup (snd (process_excel_file \<lparr>dt_year = 2024, dt_month = 5, dt_day = 15\<rparr>
          \<lparr>cwd = [''home''],
           nodes = [[''home''] \<mapsto> Dir, [''home'', ''in''] \<mapsto> Dir, [''home'', ''archived_data''] \<mapsto> Dir,
                    [''home'', ''in'', ''test.xlsx'']
                      \<mapsto> File (Workbook [\<lparr>title = ''Data'', sheet_state = hidden\<rparr>]),
                    [''home'', ''archived_data'', ''test.xlsx''] \<mapsto> Dir,
                    [''home'', ''archived_data'', ''test.xlsx'', ''test.xlsx''] \<mapsto> File Other]\<rparr>
          ''in/test.xlsx'' ''modified_excel_workbooks'' ''archived_data''))
         ''in/test.xlsx''
     = Inr (File (Workbook [\<lparr>title = ''Data'', sheet_state = hidden\<rparr>]))"
proof -
  let ?now = "\<lparr>dt_year = 2024, dt_month = 5, dt_day = 15\<rparr>"
  let ?fs = "\<lparr>cwd = [''home''],
           nodes = [[''home''] \<mapsto> Dir, [''home'', ''in''] \<mapsto> Dir, [''home'', ''archived_data''] \<mapsto> Dir,
                    [''home'', ''in'', ''test.xlsx'']
                      \<mapsto> File (Workbook [\<lparr>title = ''Data'', sheet_state = hidden\<rparr>]),
                    [''home'', ''archived_data'', ''test.xlsx''] \<mapsto> Dir,
                    [''home'', ''archived_data'', ''test.xlsx'', ''test.xlsx''] \<mapsto> File Other]\<rparr>"
  let ?run = "process_excel_file ?now ?fs ''in/test.xlsx'' ''modified_excel_workbooks'' ''archived_data''"
  let ?r1 = "get_output_path ?fs ''05-12-2024_test.xlsx'' ''modified_excel_workbooks''"
  let ?r2 = "get_archive_path (snd ?r1) (os_path_basename ''in/test.xlsx'') ''archived_data''"
  let ?r3 = "unhide_all_sheets (snd ?r2) ''in/test.xlsx'' (Some (projr (fst ?r1)))"
  let ?r4 = "shutil_move (snd ?r3) ''in/test.xlsx'' (projr (fst ?r2))"
  have h1: "create_new_filename ?now (os_path_basename ''in/test.xlsx'') = Inr ''05-12-2024_test.xlsx''"
    by code_simp
  have "\<not> isl (fst ?r1)" by code_simp
  then have h2: "?r1 = (Inr (projr (fst ?r1)), snd ?r1)" by (rule pair_Inr)
  have "\<not> isl (fst ?r2)" by code_simp
  then have h3: "?r2 = (Inr (projr (fst ?r2)), snd ?r2)" by (rule pair_Inr)
  have "\<not> isl (fst ?r3)" by code_simp
  then have "?r3 = (Inr (projr (fst ?r3)), snd ?r3)" by (rule pair_Inr)
  then have h4: "?r3 = (Inr (), snd ?r3)" by simp
  have "isl ?r4" by code_simp
  then have h5: "?r4 = Inl (projl ?r4)" by simp
  have e: "projl ?r4 = Exn ShutilError
             (''Destination path '' @ quoted ''archived_data/test.xlsx/test.xlsx'' @ '' already exists'')"
    by code_simp
  from C10_save_before_move [OF h1 h2 h3 h4 h5]
  have "?run = (Inl (projl ?r4), snd ?r3)" by (rule conjunct1)
  then have a: "fst ?run = Inl (Exn ShutilError
             (''Destination path '' @ quoted ''archived_data/test.xlsx/test.xlsx'' @ '' already exists''))"
    by (simp only: fst_conv e)
  have b: "\<not> os_path_exists ?fs ''modified_excel_workbooks/05-12-2024_test.xlsx''" by code_simp
  have c: "lookup (snd ?run) ''modified_excel_workbooks/05-12-2024_test.xlsx''
             = Inr (File (Workbook [\<lparr>title = ''Data'', sheet_state = visible\<rparr>]))"
    by code_simp
  have d: "lookup (snd ?run) ''in/test.xlsx'' = Inr (File (Workbook [\<lparr>title = ''Data'', sheet_state = hidden\<rparr>]))"
    by code_simp
  from a b c d show ?thesis by (intro conjI)
qed

section \<open>Claims about \<open>process_all_excel_files\<close>\<close>

subsection \<open>The dictionary\<close>




lemma keys_dict_set: "fst ` set (dict_set d k v) = insert k (fst ` set d)"
proof (induction d)
  case Nil
  show ?case by simp
next
  case (Cons a d)
  obtain k0 v0 where a: "a = (k0, v0)" by (cases a)
  show ?case
  proof (cases "k0 = k")
    case True
    then show ?thesis using a by simp
  next
    case False
    then have "fst ` set (dict_set (a # d) k v) = insert k0 (fst ` set (dict_set d k v))"
      using a by simp
    also have "\<dots> = insert k0 (insert k (fst ` set d))" by (simp only: Cons.IH)
    finally show ?thesis using a by (simp add: insert_commute)
  qed
qed

lemma distinct_dict_set: "distinct (map fst d) \<Longrightarrow> distinct (map fst (dict_set d k v))"
proof (induction d)
  case Nil
  then show ?case by simp
next
  case (Cons a d)
  obtain k' v' where a: "a = (k', v')" by (cases a)
  show ?case
  proof (cases "k' = k")
    case True
    then show ?thesis using Cons.prems a by simp
  next
    case False
    have "k' \<notin> fst ` set (dict_set d k v)"
      using Cons.prems a False by (simp add: keys_dict_set)
    then show ?thesis using Cons a False by simp
  qed
qed

lemma keys_dict_modify: "map fst (dict_modify d k f) = map fst d"
  by (induction d) (auto simp: dict_modify_def)

lemma entry_dict_set:
  "(k', r) \<in> set (dict_set d k v) \<Longrightarrow> distinct (map fst d)
     \<Longrightarrow> (k' = k \<and> r = v) \<or> (k' \<noteq> k \<and> (k', r) \<in> set d)"
proof (induction d)
  case Nil
  then show ?case by simp
next
  case (Cons a d)
  obtain k0 v0 where a: "a = (k0, v0)" by (cases a)
  show ?case
  proof (cases "k0 = k")
    case True
    then have "k \<notin> fst ` set d" using Cons.prems(2) a by auto
    then show ?thesis using Cons.prems a True by force
  next
    case False
    then show ?thesis using Cons a by auto
  qed
qed

lemma entry_dict_modify:
  "(k', r) \<in> set (dict_modify d k f) \<Longrightarrow>
     (k' = k \<and> (\<exists>r0. (k, r0) \<in> set d \<and> r = f r0)) \<or> (k' \<noteq> k \<and> (k', r) \<in> set d)"
  by (auto simp: dict_modify_def split: if_splits)

subsection \<open>The loop\<close>




lemma process_loop_entries:
  assumes "distinct (map fst results)" "\<forall>(k, r) \<in> set results. one_populated r"
  shows "\<forall>(k, r) \<in> set (fst (process_loop clock output_dir archive_dir i results fs files)).
           one_populated r"
  using assms
proof (induction files arbitrary: i results fs)
  case Nil
  then show ?case by simp
next
  case (Cons file_path rest)
  let ?init = "\<lparr>res_status = False, res_output = None, res_error = None\<rparr>"
  let ?r1 = "dict_set results file_path ?init"
  have d1: "distinct (map fst ?r1)" using Cons.prems(1) by (rule distinct_dict_set)
  have e1: "(k = file_path \<and> r = ?init) \<or> (k \<noteq> file_path \<and> (k, r) \<in> set results)"
    if "(k, r) \<in> set ?r1" for k r
    using that Cons.prems(1) by (rule entry_dict_set)
  obtain outcome fs' where run: "process_excel_file (clock i) fs file_path output_dir archive_dir = (outcome, fs')"
    by (cases "process_excel_file (clock i) fs file_path output_dir archive_dir")
  show ?case
  proof (cases outcome)
    case (Inl e)
    let ?r2 = "dict_modify ?r1 file_path (\<lambda>r. r\<lparr>res_error := Some (str_exn e)\<rparr>)"
    have d2: "distinct (map fst ?r2)" using d1 by (simp add: keys_dict_modify)
    have ok: "\<forall>(k, r) \<in> set ?r2. one_populated r"
    proof (clarify)
      fix k r assume "(k, r) \<in> set ?r2"
      then consider r0 where "k = file_path" "(file_path, r0) \<in> set ?r1" "r = r0\<lparr>res_error := Some (str_exn e)\<rparr>"
        | "k \<noteq> file_path" "(k, r) \<in> set ?r1"
        using entry_dict_modify [of k r ?r1 file_path] by blast
      then show "one_populated r"
      proof cases
        case 1
        then have "r0 = ?init" using e1 [of file_path r0] by simp
        then show ?thesis using 1 by (simp add: one_populated_def)
      next
        case 2
        then have "(k, r) \<in> set results" using e1 [of k r] by simp
        then show ?thesis using Cons.prems(2) by auto
      qed
    qed
    have "process_loop clock output_dir archive_dir i results fs (file_path # rest)
          = process_loop clock output_dir archive_dir (Suc i) ?r2 fs' rest"
      using run Inl by (simp add: Let_def)
    then show ?thesis using Cons.IH [OF d2 ok] by simp
  next
    case (Inr output_path)
    let ?r2 = "dict_modify ?r1 file_path (\<lambda>r. r\<lparr>res_status := True\<rparr>)"
    let ?r3 = "dict_modify ?r2 file_path (\<lambda>r. r\<lparr>res_output := Some output_path\<rparr>)"
    have d3: "distinct (map fst ?r3)" using d1 by (simp add: keys_dict_modify)
    have ok: "\<forall>(k, r) \<in> set ?r3. one_populated r"
    proof (clarify)
      fix k r assume "(k, r) \<in> set ?r3"
      then consider r1 where "k = file_path" "(file_path, r1) \<in> set ?r2" "r = r1\<lparr>res_output := Some output_path\<rparr>"
        | "k \<noteq> file_path" "(k, r) \<in> set ?r2"
        using entry_dict_modify [of k r ?r2 file_path] by blast
      then show "one_populated r"
      proof cases
        case 1
        from 1(2) obtain r0 where "(file_path, r0) \<in> set ?r1" "r1 = r0\<lparr>res_status := True\<rparr>"
          using entry_dict_modify [of file_path r1 ?r1 file_path] by blast
        moreover from this have "r0 = ?init" using e1 [of file_path r0] by simp
        ultimately show ?thesis using 1 by (simp add: one_populated_def)
      next
        case 2
        then have "(k, r) \<in> set ?r1" using entry_dict_modify [of k r ?r1 file_path] by blast
        then have "(k, r) \<in> set results" using 2 e1 [of k r] by simp
        then show ?thesis using Cons.prems(2) by auto
      qed
    qed
    have "process_loop clock output_dir archive_dir i results fs (file_path # rest)
          = process_loop clock output_dir archive_dir (Suc i) ?r3 fs' rest"
      using run Inr by (simp add: Let_def)
    then show ?thesis using Cons.IH [OF d3 ok] by simp
  qed
qed

subsection \<open>One entry for every file\<close>




subsection \<open>The entries\<close>

text \<open>
  C8: in every entry of the dictionary that \<open>process_all_excel_files\<close> returns,
  exactly one of the output path and the error message is there and the other is
  \<open>None\<close>, and the status is true exactly when the output path is there.
\<close>

theorem C8_one_populated:
  assumes "process_all_excel_files env clock fs directory output_dir archive_dir = Inr (results, fs')"
  shows "\<forall>(file_path, r) \<in> set results. one_populated r"
proof -
  from assms obtain files where
    "process_loop clock output_dir archive_dir 0 [] fs files = (results, fs')"
    by (auto simp: process_all_excel_files_def split: sum.splits)
  then have "results = fst (process_loop clock output_dir archive_dir 0 [] fs files)" by simp
  then show ?thesis
    using process_loop_entries [of "[]" clock output_dir archive_dir 0 fs files] by simp
qed

text \<open>The two entries of the batch above, one of each kind.\<close>

theorem C8_one_populated_witness:
  "map_sum id fst
        (process_all_excel_files
            \<lparr>listdir = (\<lambda>d. if d = ''in'' then [''bad.xlsx'', ''good.xlsx'', ''notes.txt''] else []),
             expand_dirs = (\<lambda>d. Inr [])\<rparr>
            (\<lambda>i. \<lparr>dt_year = 2024, dt_month = 5, dt_day = 15\<rparr>)
            \<lparr>cwd = [''home''],
             nodes = [[''home''] \<mapsto> Dir, [''home'', ''in''] \<mapsto> Dir,
                      [''home'', ''in'', ''bad.xlsx''] \<mapsto> File Other,
                      [''home'', ''in'', ''good.xlsx'']
                        \<mapsto> File (Workbook [\<lparr>title = ''Data'', sheet_state = hidden\<rparr>])]\<rparr>
            ''in'' ''modified_excel_workbooks'' ''archived_data'')
     = Inr [(''in/bad.xlsx'',
             \<lparr>res_status = False, res_output = None, res_error = Some ''File is not a zip file''\<rparr>),
            (''in/good.xlsx'',
             \<lparr>res_status = True, res_output = Some ''modified_excel_workbooks/05-12-2024_good.xlsx'',
              res_error = None\<rparr>)]
   \<and> one_populated \<lparr>res_status = False, res_output = None, res_error = Some ''File is not a zip file''\<rparr>
   \<and> one_populated \<lparr>res_status = True, res_output = Some ''modified_excel_workbooks/05-12-2024_good.xlsx'',
                     res_error = None\<rparr>"
proof -
  let ?run = "process_all_excel_files
            \<lparr>listdir = (\<lambda>d. if d = ''in'' then [''bad.xlsx'', ''good.xlsx'', ''notes.txt''] else []),
             expand_dirs = (\<lambda>d. Inr [])\<rparr>
            (\<lambda>i. \<lparr>dt_year = 2024, dt_month = 5, dt_day = 15\<rparr>)
            \<lparr>cwd = [''home''],
             nodes = [[''home''] \<mapsto> Dir, [''home'', ''in''] \<mapsto> Dir,
                      [''home'', ''in'', ''bad.xlsx''] \<mapsto> File Other,
                      [''home'', ''in'', ''good.xlsx'']
                        \<mapsto> File (Workbook [\<lparr>title = ''Data'', sheet_state = hidden\<rparr>])]\<rparr>
            ''in'' ''modified_excel_workbooks'' ''archived_data''"
  let ?bad = "\<lparr>res_status = False, res_output = None, res_error = Some ''File is not a zip file''\<rparr>"
  let ?good = "\<lparr>res_status = True, res_output = Some ''modified_excel_workbooks/05-12-2024_good.xlsx'',
                res_error = None\<rparr>"
  have r: "map_sum id fst ?run = Inr [(''in/bad.xlsx'', ?bad), (''in/good.xlsx'', ?good)]"
    by code_simp
  have "\<not> isl ?run" by code_simp
  then have h: "?run = Inr (fst (projr ?run), snd (projr ?run))" by (rule Inr_collapse_pair)
  have "map_sum id fst ?run = Inr (fst (projr ?run))" by (subst h) simp
  then have e: "fst (projr ?run) = [(''in/bad.xlsx'', ?bad), (''in/good.xlsx'', ?good)]"
    using r by simp
  have m1: "(''in/bad.xlsx'', ?bad) \<in> set (fst (projr ?run))" unfolding e by simp
  have m2: "(''in/good.xlsx'', ?good) \<in> set (fst (projr ?run))" unfolding e by simp
  from C8_one_populated [OF h] m1 have "case (''in/bad.xlsx'', ?bad) of (file_path, r) \<Rightarrow> one_populated r"
    by (rule bspec)
  then have o1: "one_populated ?bad" by (simp only: prod.case)
  from C8_one_populated [OF h] m2 have "case (''in/good.xlsx'', ?good) of (file_path, r) \<Rightarrow> one_populated r"
    by (rule bspec)
  then have o2: "one_populated ?good" by (simp only: prod.case)
  from r o1 o2 show ?thesis by (intro conjI)
qed

end
